theory Spec2Isabelle
  imports Main "HOL-Library.Char_ord" "HOL-Library.List_Lexorder"
begin

section \<open>Values carried by event payloads\<close>

text \<open>
  Payload fields arrive as JSON. The handlers of \<^verbatim>\<open>configurations/socket.js\<close> never
  calculate with them: they test \<^verbatim>\<open>typeof v === 'number'\<close>, test truthiness
  (\<^verbatim>\<open>a || b\<close>), use a value as a property key of the \<^verbatim>\<open>users\<close> object and copy values
  into outgoing payloads. Numbers are therefore carried as integers, and the primitive
  values are modelled. The arguments of a handler are the values that its parameter
  pattern (\<^verbatim>\<open>{ userId, x, y }\<close>) binds; a field that reads \<^verbatim>\<open>undefined\<close> is \<open>JUndefined\<close>.
\<close>

datatype jsval = JUndefined | JNull | JBool bool | JNum int | JStr string

fun truthy :: "jsval \<Rightarrow> bool" where
  "truthy JUndefined = False"
| "truthy JNull = False"
| "truthy (JBool b) = b"
| "truthy (JNum n) = (n \<noteq> 0)"
| "truthy (JStr s) = (s \<noteq> [])"

fun is_number :: "jsval \<Rightarrow> bool" where
  "is_number (JNum n) = True"
| "is_number v = False"

definition js_or :: "jsval \<Rightarrow> jsval \<Rightarrow> jsval" where
  \<comment> \<open>\<^verbatim>\<open>a || b\<close>\<close>
  "js_or a b = (if truthy a then a else b)"

fun digits_of :: "nat \<Rightarrow> string" where
  "digits_of n = (if n < 10 then [''0123456789'' ! n]
                  else digits_of (n div 10) @ [''0123456789'' ! (n mod 10)])"

declare digits_of.simps [simp del]

fun to_key :: "jsval \<Rightarrow> string" where
  \<comment> \<open>the property key of \<^verbatim>\<open>users[v]\<close>: the string conversion of \<open>v\<close>
      (decimal digits for an integer below \<open>10^21\<close> in magnitude)\<close>
  "to_key JUndefined = ''undefined''"
| "to_key JNull = ''null''"
| "to_key (JBool b) = (if b then ''true'' else ''false'')"
| "to_key (JNum n) = (if n < 0 then CHR ''-'' # digits_of (nat (- n)) else digits_of (nat n))"
| "to_key (JStr s) = s"

section \<open>The in-memory user store\<close>

text \<open>
  \<^verbatim>\<open>users = { "userId": { socketIds: Set<string>, firstName, lastName, x, y, tableId } }\<close>.
  A \<^verbatim>\<open>Set\<close> iterates in insertion order and holds no value twice: it is a list with
  \<open>set_add\<close> and \<open>set_delete\<close>. The fields \<^verbatim>\<open>x\<close> and \<^verbatim>\<open>y\<close> are named \<open>xpos\<close> and \<open>ypos\<close>.
\<close>

type_synonym sid = string

record entry =
  socketIds :: "sid list"
  firstName :: jsval
  lastName :: jsval
  xpos :: jsval
  ypos :: jsval
  tableId :: jsval

definition set_add :: "sid \<Rightarrow> sid list \<Rightarrow> sid list" where
  "set_add s xs = (if s \<in> set xs then xs else xs @ [s])"

definition set_delete :: "sid \<Rightarrow> sid list \<Rightarrow> sid list" where
  "set_delete s xs = removeAll s xs"

text \<open>
  The \<^verbatim>\<open>users\<close> object is the list of its own properties in the order
  \<^verbatim>\<open>Object.entries\<close> reports them: keys that are array indices (canonical decimal
  numerals below \<open>2^32 - 1\<close>) first, in ascending numeric order, then all other keys in
  the order of their creation. What \<^verbatim>\<open>users[k]\<close> yields for a key that is not an own
  property is the matter of \<open>users_get\<close> below.
\<close>

type_synonym registry = "(string \<times> entry) list"

definition is_digit :: "char \<Rightarrow> bool" where
  "is_digit c = (CHR ''0'' \<le> c \<and> c \<le> CHR ''9'')"

definition index_value :: "string \<Rightarrow> nat" where
  "index_value k = foldl (\<lambda>a c. 10 * a + (of_char c - 48)) 0 k"

definition is_array_index :: "string \<Rightarrow> bool" where
  "is_array_index k =
     (k \<noteq> [] \<and> list_all is_digit k \<and> (length k = 1 \<or> hd k \<noteq> CHR ''0'')
      \<and> index_value k < 4294967295)"

definition obj_get :: "registry \<Rightarrow> string \<Rightarrow> entry option" where
  \<comment> \<open>\<^verbatim>\<open>users[k]\<close>; \<open>None\<close> is \<^verbatim>\<open>undefined\<close>\<close>
  "obj_get us k = map_of us k"

fun obj_replace :: "string \<Rightarrow> entry \<Rightarrow> registry \<Rightarrow> registry" where
  "obj_replace k v [] = []"
| "obj_replace k v ((k', v') # us) =
     (if k' = k then (k, v) # us else (k', v') # obj_replace k v us)"

fun obj_insert_index :: "string \<Rightarrow> entry \<Rightarrow> registry \<Rightarrow> registry" where
  "obj_insert_index k v [] = [(k, v)]"
| "obj_insert_index k v ((k', v') # us) =
     (if is_array_index k' \<and> index_value k' < index_value k
      then (k', v') # obj_insert_index k v us
      else (k, v) # (k', v') # us)"

definition obj_put :: "string \<Rightarrow> entry \<Rightarrow> registry \<Rightarrow> registry" where
  \<comment> \<open>\<^verbatim>\<open>users[k] = v\<close>: an existing property keeps its place\<close>
  "obj_put k v us =
     (if k \<in> set (map fst us) then obj_replace k v us
      else if is_array_index k then obj_insert_index k v us
      else us @ [(k, v)])"

definition obj_delete :: "string \<Rightarrow> registry \<Rightarrow> registry" where
  \<comment> \<open>\<^verbatim>\<open>delete users[k]\<close>\<close>
  "obj_delete k us = filter (\<lambda>p. fst p \<noteq> k) us"

definition connectionsFor :: "registry \<Rightarrow> string \<Rightarrow> sid list" where
  \<comment> \<open>the live connections of a user: \<^verbatim>\<open>users[k]?.socketIds\<close>, empty when there is no entry\<close>
  "connectionsFor us k = (case obj_get us k of None \<Rightarrow> [] | Some e \<Rightarrow> socketIds e)"

section \<open>Outgoing events, the log and the durable store\<close>

text \<open>
  \<open>To s\<close> is \<^verbatim>\<open>socket.emit\<close> on the connection \<open>s\<close> or \<^verbatim>\<open>io.to(s).emit\<close>: the
  event goes to the connection \<open>s\<close> alone. \<open>OthersOf s\<close> is \<^verbatim>\<open>socket.broadcast.emit\<close>
  on the connection \<open>s\<close>: it goes to every connection but \<open>s\<close>.
\<close>

datatype target = To sid | OthersOf sid

type_synonym json = string

record vdata =
  v_from :: jsval
  v_to :: jsval
  v_body :: json

datatype roster_item = RosterItem string jsval jsval jsval jsval jsval

record message =
  m_id :: string
  m_chatId :: string
  m_senderId :: string
  m_content :: string
  m_isReadBy :: "string list"
  m_createdAt :: nat

record chat =
  c_id :: string
  c_groupName :: "string option"
  c_isGroupChat :: bool
  c_participants :: "string list"
  c_participantsKey :: "string option"
  c_updatedAt :: nat

datatype payload =
    ExistingUsers "roster_item list"
  | UserJoined jsval jsval jsval jsval jsval
  | UserMoved jsval jsval jsval
  | TableJoined jsval jsval
  | TableCreated json
  | MessagesRead string string
  | Signal string vdata
  | UserLeft string
  | UserFollowed json
  | ChatCreated chat
  | MessageCreated string string string string nat string "string option" bool

datatype logmsg =
    NewSocket sid
  | RegisterUserLog jsval sid
  | UsersMapNowHas "string list"
  | DbErrorRegisterUser
  | DbErrorUserMoved
  | DbErrorJoinTable
  | MarkMessagesAsReadError
  | OfflineDropping jsval string
  | VideoOfferLog jsval jsval
  | SocketDisconnected sid
  | NowCompletelyOffline string
  | FollowedUserOffline string
  | FollowedDelivering string "sid list"

text \<open>
  An exception that leaves a handler is the effect \<open>Throw\<close>, the last one of that handler.
  No handler of \<^verbatim>\<open>socket.js\<close> and nothing in \<^verbatim>\<open>index.js\<close> catches it.
\<close>

datatype js_error = TypeError

datatype effect = Emit target payload | Log logmsg | Throw js_error

fun emits :: "effect list \<Rightarrow> (target \<times> payload) list" where
  "emits [] = []"
| "emits (Emit t p # es) = (t, p) # emits es"
| "emits (Log m # es) = emits es"
| "emits (Throw err # es) = emits es"

fun errors :: "effect list \<Rightarrow> js_error list" where
  "errors [] = []"
| "errors (Throw err # es) = err # errors es"
| "errors (Emit t p # es) = errors es"
| "errors (Log m # es) = errors es"

text \<open>
  The collections \<^verbatim>\<open>HangoutUser\<close> (schema defaults \<^verbatim>\<open>x: 100\<close>, \<^verbatim>\<open>y: 100\<close>,
  \<^verbatim>\<open>tableId: null\<close>) and \<^verbatim>\<open>Message\<close>. Whether a call to the store throws is decided
  outside the program: every handler that writes takes a flag \<open>ok\<close>, and \<open>ok = False\<close>
  is the run in which the awaited call rejects.
\<close>

record hangout_rec =
  h_userId :: jsval
  h_x :: jsval
  h_y :: jsval
  h_tableId :: jsval

definition new_hangout :: "jsval \<Rightarrow> hangout_rec" where
  "new_hangout uid = \<lparr>h_userId = uid, h_x = JNum 100, h_y = JNum 100, h_tableId = JNull\<rparr>"

fun hangout_upsert :: "jsval \<Rightarrow> (hangout_rec \<Rightarrow> hangout_rec) \<Rightarrow> hangout_rec list \<Rightarrow> hangout_rec list" where
  \<comment> \<open>change the first record of the user, or insert one\<close>
  "hangout_upsert uid f [] = [f (new_hangout uid)]"
| "hangout_upsert uid f (r # rs) =
     (if h_userId r = uid then f r # rs else r # hangout_upsert uid f rs)"

definition updateMany_read :: "string \<Rightarrow> string \<Rightarrow> message list \<Rightarrow> message list" where
  \<comment> \<open>\<^verbatim>\<open>Message.updateMany({chatId, isReadBy: {$ne: userId}, senderId: {$ne: userId}},
      {$push: {isReadBy: userId}})\<close>\<close>
  "updateMany_read c u ms =
     map (\<lambda>m. if m_chatId m = c \<and> u \<notin> set (m_isReadBy m) \<and> m_senderId m \<noteq> u
              then m\<lparr>m_isReadBy := m_isReadBy m @ [u]\<rparr> else m) ms"

text \<open>
  \<^verbatim>\<open>users\<close> is a plain object: \<^verbatim>\<open>users[k]\<close> for a key that is no own property yields what
  \<^verbatim>\<open>Object.prototype\<close> has under that name. These are the twelve built-in members (the
  object \<^verbatim>\<open>Object.prototype\<close> itself under \<^verbatim>\<open>__proto__\<close>, functions under the other names)
  and the properties \<^verbatim>\<open>x\<close>, \<^verbatim>\<open>y\<close> and \<^verbatim>\<open>tableId\<close> that the handlers themselves write onto
  \<^verbatim>\<open>Object.prototype\<close> through \<^verbatim>\<open>users["__proto__"]\<close>, kept in the fields \<open>proto_x\<close>,
  \<open>proto_y\<close> and \<open>proto_tableId\<close> (\<open>None\<close> while \<^verbatim>\<open>Object.prototype\<close> has no such property).
\<close>

record state =
  users :: registry
  proto_x :: "jsval option"
  proto_y :: "jsval option"
  proto_tableId :: "jsval option"
  hangout :: "hangout_rec list"
  messages :: "message list"

definition init_state :: state where
  "init_state = \<lparr>users = [], proto_x = None, proto_y = None, proto_tableId = None,
                  hangout = [], messages = []\<rparr>"

definition proto :: "state \<Rightarrow> jsval option \<times> jsval option \<times> jsval option" where
  \<comment> \<open>what the handlers have written onto \<^verbatim>\<open>Object.prototype\<close>\<close>
  "proto st = (proto_x st, proto_y st, proto_tableId st)"

definition inherited_field :: "state \<Rightarrow> string \<Rightarrow> jsval option" where
  \<comment> \<open>the value that every object inherits under the name \<open>k\<close> from those writes\<close>
  "inherited_field st k =
     (if k = ''x'' then proto_x st else if k = ''y'' then proto_y st
      else if k = ''tableId'' then proto_tableId st else None)"

definition inherited_names :: "string list" where
  "inherited_names =
     [''constructor'', ''__proto__'', ''hasOwnProperty'', ''isPrototypeOf'',
      ''propertyIsEnumerable'', ''toLocaleString'', ''toString'', ''valueOf'',
      ''__defineGetter__'', ''__defineSetter__'', ''__lookupGetter__'', ''__lookupSetter__'']"

datatype found = Own entry | Inherited_object | Inherited_value jsval | Missing

definition users_get :: "state \<Rightarrow> string \<Rightarrow> found" where
  \<comment> \<open>\<^verbatim>\<open>users[k]\<close>\<close>
  "users_get st k =
     (case obj_get (users st) k of
        Some e \<Rightarrow> Own e
      | None \<Rightarrow>
          (case inherited_field st k of
             Some v \<Rightarrow> Inherited_value v
           | None \<Rightarrow> if k \<in> set inherited_names then Inherited_object else Missing))"

section \<open>The handlers of a connection\<close>

text \<open>
  Each handler runs on the connection \<open>s\<close> (\<^verbatim>\<open>socket.id\<close>). The functions of this section
  are the handlers run to their end with nothing else handled while they wait for the
  store; they return the new state and what they emitted, logged and threw, in order.
  The handlers that emit after an \<^verbatim>\<open>await\<close> are split into their steps in the next
  section.
\<close>

record reg_payload =
  r_userId :: jsval
  r_firstName :: jsval
  r_lastName :: jsval
  r_x :: jsval
  r_y :: jsval

definition new_entry :: "reg_payload \<Rightarrow> entry" where
  "new_entry p =
     \<lparr>socketIds = [],
      firstName = js_or (r_firstName p) (JStr ''Anon''),
      lastName = js_or (r_lastName p) (JStr []),
      xpos = (if is_number (r_x p) then r_x p else JNum 100),
      ypos = (if is_number (r_y p) then r_y p else JNum 100),
      tableId = JNull\<rparr>"

definition roster :: "registry \<Rightarrow> roster_item list" where
  "roster us =
     map (\<lambda>(uid, d). RosterItem uid (firstName d) (lastName d) (xpos d) (ypos d) (tableId d)) us"

definition register_entry :: "state \<Rightarrow> reg_payload \<Rightarrow> js_error + entry" where
  \<comment> \<open>\<^verbatim>\<open>users[userId] ?? {...}\<close> and the read of its \<^verbatim>\<open>socketIds\<close>: an inherited value that is
      not nullish is kept by \<^verbatim>\<open>??\<close>, has no \<^verbatim>\<open>socketIds\<close>, and \<^verbatim>\<open>.add\<close> throws\<close>
  "register_entry st p =
     (case users_get st (to_key (r_userId p)) of
        Own e \<Rightarrow> Inr e
      | Missing \<Rightarrow> Inr (new_entry p)
      | Inherited_value v \<Rightarrow>
          if v = JUndefined \<or> v = JNull then Inr (new_entry p) else Inl TypeError
      | Inherited_object \<Rightarrow> Inl TypeError)"

definition registerUser_store ::
  "jsval \<Rightarrow> jsval \<Rightarrow> jsval \<Rightarrow> bool \<Rightarrow> hangout_rec list \<Rightarrow> hangout_rec list \<times> effect list" where
  \<comment> \<open>the \<^verbatim>\<open>try\<close> block with the two store calls, for the values of \<^verbatim>\<open>entry.x\<close> and \<^verbatim>\<open>entry.y\<close>\<close>
  "registerUser_store uid x y ok hs =
     (if ok
      then (hangout_upsert uid (\<lambda>r. r\<lparr>h_x := x, h_y := y, h_tableId := JNull\<rparr>) hs, [])
      else (hs, [Log DbErrorRegisterUser]))"

definition registerUser_emits :: "sid \<Rightarrow> reg_payload \<Rightarrow> jsval \<Rightarrow> jsval \<Rightarrow> registry \<Rightarrow> effect list" where
  \<comment> \<open>the roster and the broadcast, for the values of \<^verbatim>\<open>entry.x\<close> and \<^verbatim>\<open>entry.y\<close> and the
      user store at that moment\<close>
  "registerUser_emits s p x y us =
     [Emit (To s) (ExistingUsers (roster us)),
      Emit (OthersOf s) (UserJoined (r_userId p) (r_firstName p) (r_lastName p) x y)]"

definition registerUser :: "sid \<Rightarrow> reg_payload \<Rightarrow> bool \<Rightarrow> state \<Rightarrow> state \<times> effect list" where
  "registerUser s p ok st =
     (case register_entry st p of
        Inl err \<Rightarrow> (st, [Log (RegisterUserLog (r_userId p) s), Throw err])
      | Inr e0 \<Rightarrow>
          (let k = to_key (r_userId p);
               e = e0\<lparr>socketIds := set_add s (socketIds e0)\<rparr>;
               us = obj_put k e (users st);
               hs = registerUser_store (r_userId p) (xpos e) (ypos e) ok (hangout st)
           in (st\<lparr>users := us, hangout := fst hs\<rparr>,
               [Log (RegisterUserLog (r_userId p) s), Log (UsersMapNowHas (map fst us))]
               @ snd hs @ registerUser_emits s p (xpos e) (ypos e) us)))"

definition write_fields ::
  "state \<Rightarrow> string \<Rightarrow> (entry \<Rightarrow> entry) \<Rightarrow> (state \<Rightarrow> state) \<Rightarrow> js_error + state" where
  \<comment> \<open>\<^verbatim>\<open>if (users[k]) { users[k].f = v; ... }\<close>: \<open>upd\<close> is the write on an entry, \<open>pupd\<close> the
      same write on \<^verbatim>\<open>Object.prototype\<close>, where it lands under \<^verbatim>\<open>__proto__\<close>; under
      another built-in name it lands on a function that nothing reads; a write on
      an inherited primitive value throws, the module being in strict mode.\<close>
  "write_fields st k upd pupd =
     (case users_get st k of
        Own e \<Rightarrow> Inr (st\<lparr>users := obj_put k (upd e) (users st)\<rparr>)
      | Inherited_object \<Rightarrow> Inr (if k = ''__proto__'' then pupd st else st)
      | Inherited_value v \<Rightarrow> if truthy v then Inl TypeError else Inr st
      | Missing \<Rightarrow> Inr st)"

definition userMoved :: "sid \<Rightarrow> jsval \<Rightarrow> jsval \<Rightarrow> jsval \<Rightarrow> bool \<Rightarrow> state \<Rightarrow> state \<times> effect list" where
  "userMoved s uid x y ok st =
     (case write_fields st (to_key uid) (\<lambda>e. e\<lparr>xpos := x, ypos := y\<rparr>)
             (\<lambda>st. st\<lparr>proto_x := Some x, proto_y := Some y\<rparr>) of
        Inl err \<Rightarrow> (st, [Throw err])
      | Inr st1 \<Rightarrow>
          (st1\<lparr>hangout := (if ok then hangout_upsert uid (\<lambda>r. r\<lparr>h_x := x, h_y := y\<rparr>) (hangout st1)
                            else hangout st1)\<rparr>,
           Emit (OthersOf s) (UserMoved uid x y)
           # (if ok then [] else [Log DbErrorUserMoved])))"

definition joinTable :: "sid \<Rightarrow> jsval \<Rightarrow> jsval \<Rightarrow> bool \<Rightarrow> state \<Rightarrow> state \<times> effect list" where
  "joinTable s uid t ok st =
     (case write_fields st (to_key uid) (\<lambda>e. e\<lparr>tableId := t\<rparr>)
             (\<lambda>st. st\<lparr>proto_tableId := Some t\<rparr>) of
        Inl err \<Rightarrow> (st, [Throw err])
      | Inr st1 \<Rightarrow>
          (st1\<lparr>hangout := (if ok then hangout_upsert uid (\<lambda>r. r\<lparr>h_tableId := t\<rparr>) (hangout st1)
                            else hangout st1)\<rparr>,
           Emit (OthersOf s) (TableJoined uid t)
           # (if ok then [] else [Log DbErrorJoinTable])))"

definition tableCreated :: "sid \<Rightarrow> json \<Rightarrow> state \<Rightarrow> state \<times> effect list" where
  "tableCreated s newTable st = (st, [Emit (OthersOf s) (TableCreated newTable)])"

definition markMessagesAsRead :: "sid \<Rightarrow> string \<Rightarrow> string \<Rightarrow> bool \<Rightarrow> state \<Rightarrow> state \<times> effect list" where
  \<comment> \<open>\<^verbatim>\<open>users[userId]?.socketIds?.forEach\<close> visits nothing for an inherited value\<close>
  "markMessagesAsRead s chatId userId ok st =
     (if ok
      then (st\<lparr>messages := updateMany_read chatId userId (messages st)\<rparr>,
            map (\<lambda>c. Emit (To c) (MessagesRead chatId userId)) (connectionsFor (users st) userId))
      else (st, [Log MarkMessagesAsReadError]))"

definition relay_target :: "state \<Rightarrow> string \<Rightarrow> js_error + entry option" where
  \<comment> \<open>\<^verbatim>\<open>users[data.to]\<close>, the test \<^verbatim>\<open>!entry\<close> and the read of \<^verbatim>\<open>entry.socketIds\<close>: an inherited
      value that is truthy passes the test, has no \<^verbatim>\<open>socketIds\<close>, and \<^verbatim>\<open>.forEach\<close> throws\<close>
  "relay_target st k =
     (case users_get st k of
        Own e \<Rightarrow> Inr (Some e)
      | Missing \<Rightarrow> Inr None
      | Inherited_value v \<Rightarrow> if truthy v then Inl TypeError else Inr None
      | Inherited_object \<Rightarrow> Inl TypeError)"

definition relay :: "string \<Rightarrow> vdata \<Rightarrow> state \<Rightarrow> state \<times> effect list" where
  "relay event d st =
     (case relay_target st (to_key (v_to d)) of
        Inl err \<Rightarrow> (st, [Throw err])
      | Inr None \<Rightarrow> (st, [Log (OfflineDropping (v_to d) event)])
      | Inr (Some e) \<Rightarrow> (st, map (\<lambda>c. Emit (To c) (Signal event d)) (socketIds e)))"

definition video_offer :: "vdata \<Rightarrow> state \<Rightarrow> state \<times> effect list" where
  "video_offer d st =
     (let (st', es) = relay ''video-offer'' d st
      in (st', Log (VideoOfferLog (v_from d) (v_to d)) # es))"

fun disconnect_scan :: "sid \<Rightarrow> registry \<Rightarrow> registry \<Rightarrow> registry \<times> effect list" where
  \<comment> \<open>the loop over \<^verbatim>\<open>Object.entries(users)\<close>; the second argument is \<^verbatim>\<open>users\<close>,
      the third the entries still to visit\<close>
  "disconnect_scan s us [] = (us, [])"
| "disconnect_scan s us ((uid, d) # rest) =
     (if s \<in> set (socketIds d)
      then (let d' = d\<lparr>socketIds := set_delete s (socketIds d)\<rparr>
            in if length (socketIds d') = 0
               then (obj_delete uid us,
                     [Log (NowCompletelyOffline uid), Emit (OthersOf s) (UserLeft uid)])
               else (obj_put uid d' us, []))
      else disconnect_scan s us rest)"

definition disconnect :: "sid \<Rightarrow> state \<Rightarrow> state \<times> effect list" where
  "disconnect s st =
     (let (us, es) = disconnect_scan s (users st) (users st)
      in (st\<lparr>users := us\<rparr>, Log (SocketDisconnected s) # es))"

definition notifyUserFollowed :: "bool \<Rightarrow> string \<Rightarrow> json \<Rightarrow> state \<Rightarrow> state \<times> effect list" where
  \<comment> \<open>the first argument tells whether \<^verbatim>\<open>io\<close> is set, that is whether \<^verbatim>\<open>initSocket\<close> has run;
      an inherited value fails the guard \<^verbatim>\<open>!entry || !entry.socketIds\<close> like a missing one\<close>
  "notifyUserFollowed io followedUserId pl st =
     (if \<not> io then (st, [])
      else (case obj_get (users st) followedUserId of
              None \<Rightarrow> (st, [Log (FollowedUserOffline followedUserId)])
            | Some e \<Rightarrow>
                if length (socketIds e) = 0
                then (st, [Log (FollowedUserOffline followedUserId)])
                else (st, Log (FollowedDelivering followedUserId (socketIds e))
                          # map (\<lambda>c. Emit (To c) (UserFollowed pl)) (socketIds e))))"

datatype event =
    Connection sid
  | On_registerUser sid reg_payload bool
  | On_userMoved sid jsval jsval jsval bool
  | On_joinTable sid jsval jsval bool
  | On_tableCreated sid json
  | On_markMessagesAsRead sid string string bool
  | On_video_offer sid vdata
  | On_video_answer sid vdata
  | On_video_ice_candidate sid vdata
  | On_video_end sid vdata
  | On_disconnect sid

fun handle :: "event \<Rightarrow> state \<Rightarrow> state \<times> effect list" where
  "handle (Connection s) st = (st, [Log (NewSocket s)])"
| "handle (On_registerUser s p ok) st = registerUser s p ok st"
| "handle (On_userMoved s uid x y ok) st = userMoved s uid x y ok st"
| "handle (On_joinTable s uid t ok) st = joinTable s uid t ok st"
| "handle (On_tableCreated s t) st = tableCreated s t st"
| "handle (On_markMessagesAsRead s c u ok) st = markMessagesAsRead s c u ok st"
| "handle (On_video_offer s d) st = video_offer d st"
| "handle (On_video_answer s d) st = relay ''video-answer'' d st"
| "handle (On_video_ice_candidate s d) st = relay ''video-ice-candidate'' d st"
| "handle (On_video_end s d) st = relay ''video-end'' d st"
| "handle (On_disconnect s) st = disconnect s st"

text \<open>
  A run handles the events one after the other. A handler that throws has changed
  nothing before; whether the process goes on after the uncaught exception is left
  open: the run goes on, and a run of a process that has ended is the run of the events
  up to the throw.
\<close>

fun run :: "event list \<Rightarrow> state \<Rightarrow> state \<times> effect list" where
  "run [] st = (st, [])"
| "run (ev # evs) st =
     (let (st1, es1) = handle ev st; (st2, es2) = run evs st1 in (st2, es1 @ es2))"

definition final_users :: "event list \<Rightarrow> registry" where
  \<comment> \<open>the user store after the events, starting from the empty store\<close>
  "final_users evs = users (fst (run evs init_state))"

section \<open>Handlers that wait for the store\<close>

text \<open>
  \<^verbatim>\<open>registerUser\<close> stores the entry, then awaits \<^verbatim>\<open>findOne\<close>, copies \<^verbatim>\<open>entry.x\<close> and
  \<^verbatim>\<open>entry.y\<close> into the record, awaits \<^verbatim>\<open>save\<close>, and only then builds the roster and
  broadcasts; when a store call rejects, the \<^verbatim>\<open>catch\<close> block logs and the emits follow
  at once. \<^verbatim>\<open>markMessagesAsRead\<close> awaits \<^verbatim>\<open>updateMany\<close> and then emits. Other events are
  handled while a handler waits, so a run is a sequence of steps: the start of a
  handler, the settling of a store call of a waiting handler (\<open>n\<close> is its place in the
  list of waiting handlers, the flag tells whether the call resolved), or a whole
  handler of the previous section. (\<^verbatim>\<open>userMoved\<close> and \<^verbatim>\<open>joinTable\<close> do everything before
  their \<^verbatim>\<open>await\<close>, but for the error log.)

  A waiting \<^verbatim>\<open>registerUser\<close> holds its entry object. \<open>c_x\<close> and \<open>c_y\<close> are the \<^verbatim>\<open>x\<close> and \<^verbatim>\<open>y\<close>
  of that object now; \<open>c_gone\<close> tells that the object has left the user store (the
  disconnect handler has deleted it), after which nothing writes to it. \<open>c_rec\<close> holds
  the values copied into the record once \<^verbatim>\<open>findOne\<close> has resolved.
\<close>

record cont =
  c_sid :: sid
  c_payload :: reg_payload
  c_gone :: bool
  c_x :: jsval
  c_y :: jsval
  c_rec :: "(jsval \<times> jsval) option"

datatype pending = Reg cont | Read sid string string | Settled

record sys =
  current :: state
  pendings :: "pending list"

definition init_sys :: sys where
  "init_sys = \<lparr>current = init_state, pendings = []\<rparr>"

datatype step =
    Atomic event
  | Begin_registerUser sid reg_payload
  | FindOne_settled nat bool
  | Save_settled nat bool
  | Begin_markMessagesAsRead sid string string
  | UpdateMany_settled nat bool

definition pending_at :: "sys \<Rightarrow> nat \<Rightarrow> pending" where
  "pending_at sy n = (if n < length (pendings sy) then pendings sy ! n else Settled)"

definition settle :: "sys \<Rightarrow> nat \<Rightarrow> sys" where
  "settle sy n = sy\<lparr>pendings := (pendings sy)[n := Settled]\<rparr>"

fun act :: "step \<Rightarrow> sys \<Rightarrow> sys \<times> effect list" where
  "act (Atomic ev) sy = (sy\<lparr>current := fst (handle ev (current sy))\<rparr>, snd (handle ev (current sy)))"
| "act (Begin_registerUser s p) sy =
     (case register_entry (current sy) p of
        Inl err \<Rightarrow> (sy, [Log (RegisterUserLog (r_userId p) s), Throw err])
      | Inr e0 \<Rightarrow>
          (let e = e0\<lparr>socketIds := set_add s (socketIds e0)\<rparr>;
               us = obj_put (to_key (r_userId p)) e (users (current sy))
           in (sy\<lparr>current := (current sy)\<lparr>users := us\<rparr>,
                  pendings := pendings sy
                    @ [Reg \<lparr>c_sid = s, c_payload = p, c_gone = False,
                             c_x = xpos e, c_y = ypos e, c_rec = None\<rparr>]\<rparr>,
               [Log (RegisterUserLog (r_userId p) s), Log (UsersMapNowHas (map fst us))])))"
| "act (FindOne_settled n ok) sy =
     (case pending_at sy n of
        Reg c \<Rightarrow>
          (case c_rec c of
             None \<Rightarrow>
               if ok
               then (sy\<lparr>pendings := (pendings sy)[n := Reg (c\<lparr>c_rec := Some (c_x c, c_y c)\<rparr>)]\<rparr>, [])
               else (settle sy n,
                     Log DbErrorRegisterUser
                     # registerUser_emits (c_sid c) (c_payload c) (c_x c) (c_y c)
                         (users (current sy)))
           | Some r \<Rightarrow> (sy, []))
      | Read s c u \<Rightarrow> (sy, [])
      | Settled \<Rightarrow> (sy, []))"
| "act (Save_settled n ok) sy =
     (case pending_at sy n of
        Reg c \<Rightarrow>
          (case c_rec c of
             None \<Rightarrow> (sy, [])
           | Some r \<Rightarrow>
               (let hs = registerUser_store (r_userId (c_payload c)) (fst r) (snd r) ok
                           (hangout (current sy))
                in ((settle sy n)\<lparr>current := (current sy)\<lparr>hangout := fst hs\<rparr>\<rparr>,
                    snd hs
                    @ registerUser_emits (c_sid c) (c_payload c) (c_x c) (c_y c)
                        (users (current sy)))))
      | Read s c u \<Rightarrow> (sy, [])
      | Settled \<Rightarrow> (sy, []))"
| "act (Begin_markMessagesAsRead s c u) sy = (sy\<lparr>pendings := pendings sy @ [Read s c u]\<rparr>, [])"
| "act (UpdateMany_settled n ok) sy =
     (case pending_at sy n of
        Read s c u \<Rightarrow>
          ((settle sy n)\<lparr>current := fst (markMessagesAsRead s c u ok (current sy))\<rparr>,
           snd (markMessagesAsRead s c u ok (current sy)))
      | Reg c \<Rightarrow> (sy, [])
      | Settled \<Rightarrow> (sy, []))"

definition refresh :: "registry \<Rightarrow> pending \<Rightarrow> pending" where
  \<comment> \<open>what a waiting handler's entry object holds after a step\<close>
  "refresh us w =
     (case w of
        Reg c \<Rightarrow>
          if c_gone c then Reg c
          else (case obj_get us (to_key (r_userId (c_payload c))) of
                  Some e \<Rightarrow> Reg (c\<lparr>c_x := xpos e, c_y := ypos e\<rparr>)
                | None \<Rightarrow> Reg (c\<lparr>c_gone := True\<rparr>))
      | Read s c u \<Rightarrow> w
      | Settled \<Rightarrow> w)"

definition do_step :: "step \<Rightarrow> sys \<Rightarrow> sys \<times> effect list" where
  "do_step stp sy =
     ((fst (act stp sy))\<lparr>pendings :=
         map (refresh (users (current (fst (act stp sy))))) (pendings (fst (act stp sy)))\<rparr>,
      snd (act stp sy))"

fun run_steps :: "step list \<Rightarrow> sys \<Rightarrow> sys \<times> effect list" where
  "run_steps [] sy = (sy, [])"
| "run_steps (stp # stps) sy =
     (let (sy1, es1) = do_step stp sy; (sy2, es2) = run_steps stps sy1 in (sy2, es1 @ es2))"

fun events_of :: "step list \<Rightarrow> event list" where
  \<comment> \<open>the handlers that a sequence of steps starts, each as a whole\<close>
  "events_of [] = []"
| "events_of (Atomic ev # stps) = ev # events_of stps"
| "events_of (Begin_registerUser s p # stps) = On_registerUser s p True # events_of stps"
| "events_of (stp # stps) = events_of stps"

section \<open>The chat and message services\<close>

text \<open>
  \<^verbatim>\<open>services/chatService.js\<close> and \<^verbatim>\<open>services/messageService.js\<close> read the same
  \<^verbatim>\<open>users\<close> object. Their broadcast reads the property \<^verbatim>\<open>socketId\<close> of an entry.
  \<open>entry_prop\<close> lists the properties an entry has: those of the object literal in
  \<^verbatim>\<open>registerUser\<close>; no handler adds another one, and an inherited value has no
  \<^verbatim>\<open>socketId\<close> either. Identifiers are strings of characters below 256, the calls to
  the store are taken to succeed but for the validation of a document on \<^verbatim>\<open>save\<close>, and
  the identifier and the time of a new document are given from outside.
\<close>

datatype propval = PVal jsval | PSet "sid list"

definition entry_prop :: "entry \<Rightarrow> string \<Rightarrow> propval option" where
  "entry_prop e n =
     (if n = ''socketIds'' then Some (PSet (socketIds e))
      else if n = ''firstName'' then Some (PVal (firstName e))
      else if n = ''lastName'' then Some (PVal (lastName e))
      else if n = ''x'' then Some (PVal (xpos e))
      else if n = ''y'' then Some (PVal (ypos e))
      else if n = ''tableId'' then Some (PVal (tableId e))
      else None)"

fun prop_truthy :: "propval option \<Rightarrow> bool" where
  "prop_truthy None = False"
| "prop_truthy (Some (PVal v)) = truthy v"
| "prop_truthy (Some (PSet xs)) = True"

fun room_of :: "propval option \<Rightarrow> string" where
  "room_of None = ''undefined''"
| "room_of (Some (PVal v)) = to_key v"
| "room_of (Some (PSet xs)) = ''[object Set]''"

definition emit_by_socketId :: "registry \<Rightarrow> string \<Rightarrow> payload \<Rightarrow> effect list" where
  \<comment> \<open>\<^verbatim>\<open>const user = users[pid]; if (user?.socketId) io.to(user.socketId).emit(...)\<close>\<close>
  "emit_by_socketId us pid pl =
     (case obj_get us pid of
        None \<Rightarrow> []
      | Some u \<Rightarrow> if prop_truthy (entry_prop u ''socketId'')
                  then [Emit (To (room_of (entry_prop u ''socketId''))) pl] else [])"

record user_doc =
  u_id :: string
  u_firstName :: string
  u_avatar :: "string option"

datatype svc_error = Error string | ValidationError string

definition is_space :: "char \<Rightarrow> bool" where
  "is_space c = (c \<in> set [CHR 0x09, CHR 0x0A, CHR 0x0B, CHR 0x0C, CHR 0x0D, CHR 0x20, CHR 0xA0])"

definition trim :: "string \<Rightarrow> string" where
  "trim s = rev (dropWhile is_space (rev (dropWhile is_space s)))"

fun join :: "string \<Rightarrow> string list \<Rightarrow> string" where
  "join sep [] = []"
| "join sep [x] = x"
| "join sep (x # y # zs) = x @ sep @ join sep (y # zs)"

definition uniq :: "string list \<Rightarrow> string list" where
  \<comment> \<open>\<^verbatim>\<open>[...new Set(xs)]\<close>\<close>
  "uniq xs = foldl (\<lambda>acc x. set_add x acc) [] xs"

definition createChatService ::
  "registry \<Rightarrow> user_doc list \<Rightarrow> chat list \<Rightarrow> string \<Rightarrow> nat
     \<Rightarrow> string \<Rightarrow> string list option \<Rightarrow> string option
     \<Rightarrow> svc_error + (chat \<times> chat list \<times> effect list)" where
  "createChatService us docs chats new_id now fromId toIds groupName =
     (case toIds of
        None \<Rightarrow> Inl (Error ''fromId and toIds are required.'')
      | Some tos \<Rightarrow>
          if fromId = [] \<or> length tos < 1 then Inl (Error ''fromId and toIds are required.'')
          else if fromId \<in> set tos then Inl (Error ''Cannot chat with yourself.'')
          else
            let uniqueParticipants = uniq (fromId # tos);
                userDocs = filter (\<lambda>d. u_id d \<in> set uniqueParticipants) docs
            in if length userDocs \<noteq> length uniqueParticipants
               then Inl (Error ''One or more users not found.'')
               else if length uniqueParticipants = 2
               then
                 let sortedIds = sort uniqueParticipants;
                     participantsKey = join ''_'' sortedIds
                 in (case find (\<lambda>c. \<not> c_isGroupChat c \<and> c_participantsKey c = Some participantsKey) chats of
                       Some existingChat \<Rightarrow> Inr (existingChat, chats, [])
                     | None \<Rightarrow>
                         let newChat = \<lparr>c_id = new_id, c_groupName = None, c_isGroupChat = False,
                                        c_participants = sortedIds,
                                        c_participantsKey = Some participantsKey, c_updatedAt = now\<rparr>
                         in Inr (newChat, chats @ [newChat],
                                 concat (map (\<lambda>pid. emit_by_socketId us pid (ChatCreated newChat))
                                           (c_participants newChat))))
               else
                 (case groupName of
                    None \<Rightarrow> Inl (Error ''Group name is required for group chats.'')
                  | Some g \<Rightarrow>
                      if g = [] \<or> trim g = []
                      then Inl (Error ''Group name is required for group chats.'')
                      else
                        let newChat = \<lparr>c_id = new_id, c_groupName = Some (trim g), c_isGroupChat = True,
                                       c_participants = uniqueParticipants,
                                       c_participantsKey = None, c_updatedAt = now\<rparr>
                        in Inr (newChat, chats @ [newChat],
                                concat (map (\<lambda>pid. emit_by_socketId us pid (ChatCreated newChat))
                                          (c_participants newChat)))))"

definition createGroupChatService ::
  "registry \<Rightarrow> chat list \<Rightarrow> string \<Rightarrow> nat
     \<Rightarrow> string \<Rightarrow> string list option \<Rightarrow> string option
     \<Rightarrow> svc_error + (chat \<times> chat list \<times> effect list)" where
  "createGroupChatService us chats new_id now userId toIds groupName =
     (case toIds of
        None \<Rightarrow> Inl (Error ''At least two participants are required.'')
      | Some tos \<Rightarrow>
          if length tos < 2 then Inl (Error ''At least two participants are required.'')
          else
            let participants = uniq (tos @ [userId]);
                name = (case groupName of
                          None \<Rightarrow> ''Unnamed Group''
                        | Some g \<Rightarrow> if g = [] then ''Unnamed Group'' else g);
                chat = \<lparr>c_id = new_id, c_groupName = Some (trim name), c_isGroupChat = True,
                        c_participants = participants, c_participantsKey = None,
                        c_updatedAt = now\<rparr>
            in Inr (chat, chats @ [chat],
                    concat (map (\<lambda>pid. emit_by_socketId us pid (ChatCreated chat)) participants)))"

definition sendMessageService ::
  "registry \<Rightarrow> user_doc list \<Rightarrow> chat list \<Rightarrow> message list \<Rightarrow> string \<Rightarrow> nat
     \<Rightarrow> string \<Rightarrow> string \<Rightarrow> string
     \<Rightarrow> svc_error + (message \<times> chat list \<times> message list \<times> effect list)" where
  "sendMessageService us docs chats msgs new_id now chatId senderId content =
     (case find (\<lambda>c. c_id c = chatId) chats of
        None \<Rightarrow> Inl (Error ''Chat not found.'')
      | Some chat \<Rightarrow>
          if senderId \<notin> set (c_participants chat)
          then Inl (Error ''You are not a participant of this chat.'')
          else
            (case find (\<lambda>d. u_id d = senderId) docs of
               None \<Rightarrow> Inl (Error ''Sender not found.'')
             | Some sender \<Rightarrow>
                 if trim content = []
                 then Inl (ValidationError ''content'')
                 else
                 let newMessage = \<lparr>m_id = new_id, m_chatId = chatId, m_senderId = senderId,
                                   m_content = trim content, m_isReadBy = [senderId],
                                   m_createdAt = now\<rparr>;
                     chats' = map (\<lambda>c. if c_id c = chatId then c\<lparr>c_updatedAt := now\<rparr> else c) chats
                 in Inr (newMessage, chats', msgs @ [newMessage],
                         concat (map (\<lambda>pid.
                             emit_by_socketId us pid
                               (MessageCreated (m_id newMessage) (m_content newMessage)
                                  (m_chatId newMessage) (m_senderId newMessage)
                                  (m_createdAt newMessage)
                                  (if pid = senderId then ''You'' else u_firstName sender)
                                  (u_avatar sender) (pid = senderId)))
                           (c_participants chat)))))"

section \<open>Notions used by the properties\<close>

definition isUserOnline :: "registry \<Rightarrow> string \<Rightarrow> bool" where
  \<comment> \<open>Modelled from the spec: \<^verbatim>\<open>isUserOnline(userId) -> bool\<close> of the contract exposed to the
      REST layer is not in the source; a user is online when \<^verbatim>\<open>connectionsFor(userId)\<close> is
      not empty.\<close>
  "isUserOnline us k = (connectionsFor us k \<noteq> [])"

definition owners :: "registry \<Rightarrow> sid \<Rightarrow> string list" where
  \<comment> \<open>the keys of the entries whose \<^verbatim>\<open>socketIds\<close> hold the connection\<close>
  "owners us s = map fst (filter (\<lambda>p. s \<in> set (socketIds (snd p))) us)"

definition nonempty_entries :: "registry \<Rightarrow> bool" where
  "nonempty_entries us = list_all (\<lambda>p. socketIds (snd p) \<noteq> []) us"

fun regs :: "event list \<Rightarrow> (sid \<times> string) list" where
  \<comment> \<open>the registrations in a sequence of events: connection and key\<close>
  "regs [] = []"
| "regs (On_registerUser s p ok # evs) = (s, to_key (r_userId p)) # regs evs"
| "regs (ev # evs) = regs evs"

definition one_user_per_connection :: "event list \<Rightarrow> bool" where
  \<comment> \<open>no connection sends \<^verbatim>\<open>registerUser\<close> under two different keys\<close>
  "one_user_per_connection evs =
     list_all (\<lambda>a. list_all (\<lambda>b. fst b \<noteq> fst a \<or> snd b = snd a) (regs evs)) (regs evs)"









section \<open>Example data\<close>

definition alice :: reg_payload where
  "alice = \<lparr>r_userId = JStr ''A'', r_firstName = JStr ''Alice'', r_lastName = JStr ''Liddell'',
            r_x = JNum 10, r_y = JNum 20\<rparr>"

definition bob :: reg_payload where
  "bob = \<lparr>r_userId = JStr ''B'', r_firstName = JStr ''Bob'', r_lastName = JUndefined,
          r_x = JUndefined, r_y = JUndefined\<rparr>"


definition trudy :: reg_payload where
  \<comment> \<open>a user id that names a built-in member of \<^verbatim>\<open>Object.prototype\<close>\<close>
  "trudy = \<lparr>r_userId = JStr ''constructor'', r_firstName = JStr ''Trudy'', r_lastName = JUndefined,
            r_x = JUndefined, r_y = JUndefined\<rparr>"

definition call_to :: "string \<Rightarrow> vdata" where
  "call_to u = \<lparr>v_from = JStr ''A'', v_to = JStr u, v_body = ''sdp''\<rparr>"

definition example_messages :: "message list" where
  "example_messages =
     [\<lparr>m_id = ''m1'', m_chatId = ''C'', m_senderId = ''A'', m_content = ''hello'',
       m_isReadBy = [''A''], m_createdAt = 1\<rparr>,
      \<lparr>m_id = ''m2'', m_chatId = ''C'', m_senderId = ''B'', m_content = ''hi'',
       m_isReadBy = [''B''], m_createdAt = 2\<rparr>,
      \<lparr>m_id = ''m3'', m_chatId = ''D'', m_senderId = ''A'', m_content = ''other chat'',
       m_isReadBy = [''A''], m_createdAt = 3\<rparr>]"

definition chat_state :: state where
  \<comment> \<open>Alice online on \<open>a1\<close>, Bob on \<open>b1\<close> and \<open>b2\<close>\<close>
  "chat_state =
     (fst (run [On_registerUser ''a1'' alice True, On_registerUser ''b1'' bob True,
                On_registerUser ''b2'' bob True] init_state))\<lparr>messages := example_messages\<rparr>"

definition two_tabs_state :: state where
  \<comment> \<open>Alice online on \<open>c1\<close> and \<open>c2\<close>, Bob on \<open>b1\<close>\<close>
  "two_tabs_state =
     fst (run [On_registerUser ''c1'' alice True, On_registerUser ''b1'' bob True,
               On_registerUser ''c2'' alice True] init_state)"

definition shared_state :: state where
  \<comment> \<open>the connection \<open>c1\<close> has registered as Bob, then as Alice\<close>
  "shared_state =
     fst (run [On_registerUser ''c1'' bob True, On_registerUser ''c1'' alice True,
               On_registerUser ''c2'' alice True] init_state)"

definition example_docs :: "user_doc list" where
  "example_docs =
     [\<lparr>u_id = ''A'', u_firstName = ''Alice'', u_avatar = None\<rparr>,
      \<lparr>u_id = ''B'', u_firstName = ''Bob'', u_avatar = Some ''bob.png''\<rparr>,
      \<lparr>u_id = ''C'', u_firstName = ''Carol'', u_avatar = None\<rparr>]"

definition example_chat :: chat where
  "example_chat =
     \<lparr>c_id = ''chat1'', c_groupName = None, c_isGroupChat = False,
      c_participants = [''A'', ''B''], c_participantsKey = Some ''A_B'', c_updatedAt = 5\<rparr>"

section \<open>Facts about the user store\<close>

lemma keys_obj_replace: "map fst (obj_replace k v us) = map fst us"
  by (induction us) auto

lemma map_of_obj_replace:
  "map_of (obj_replace k v us) k' =
     (if k' = k \<and> k \<in> fst ` set us then Some v else map_of us k')"
  by (induction us) (auto simp: rev_image_eqI)

lemma keys_obj_insert_index: "fst ` set (obj_insert_index k v us) = insert k (fst ` set us)"
proof (induction us)
  case Nil
  show ?case by simp
next
  case (Cons p us)
  obtain k' v' where p: "p = (k', v')" by (cases p)
  show ?case
  proof (cases "is_array_index k' \<and> index_value k' < index_value k")
    case True
    then have "fst ` set (obj_insert_index k v (p # us)) = insert k' (fst ` set (obj_insert_index k v us))"
      by (simp add: p)
    also have "\<dots> = insert k (fst ` set (p # us))"
      by (simp add: Cons.IH p insert_commute)
    finally show ?thesis .
  next
    case False
    then have "obj_insert_index k v (p # us) = (k, v) # p # us"
      by (auto simp: p)
    then show ?thesis by simp
  qed
qed

lemma map_of_snoc:
  "k \<notin> fst ` set us \<Longrightarrow>
   map_of (us @ [(k, v)]) k' = (if k' = k then Some v else map_of us k')"
  by (induction us) auto

lemma map_of_obj_insert_index:
  "k \<notin> fst ` set us \<Longrightarrow>
   map_of (obj_insert_index k v us) k' = (if k' = k then Some v else map_of us k')"
  by (induction us) auto

lemma distinct_obj_insert_index:
  "k \<notin> fst ` set us \<Longrightarrow> distinct (map fst us) \<Longrightarrow> distinct (map fst (obj_insert_index k v us))"
  by (induction us) (auto simp: keys_obj_insert_index)

lemma obj_get_put: "obj_get (obj_put k v us) k' = (if k' = k then Some v else obj_get us k')"
  by (simp add: obj_get_def obj_put_def map_of_obj_replace map_of_obj_insert_index map_of_snoc del: map_of_append)


lemma distinct_obj_put: "distinct (map fst us) \<Longrightarrow> distinct (map fst (obj_put k v us))"
  by (auto simp: obj_put_def keys_obj_replace distinct_obj_insert_index)

lemma obj_get_delete: "obj_get (obj_delete k us) k' = (if k' = k then None else obj_get us k')"
  by (induction us) (auto simp: obj_get_def obj_delete_def)

lemma distinct_obj_delete: "distinct (map fst us) \<Longrightarrow> distinct (map fst (obj_delete k us))"
  by (simp add: obj_delete_def distinct_map_filter)

lemma obj_get_Some_iff: "distinct (map fst us) \<Longrightarrow> obj_get us k = Some e \<longleftrightarrow> (k, e) \<in> set us"
  by (simp add: obj_get_def)

section \<open>Invariants of the entries\<close>

lemma set_obj_replace: "set (obj_replace k v us) \<subseteq> insert (k, v) (set us)"
  by (induction us) (auto split: if_splits)

lemma set_obj_insert_index: "set (obj_insert_index k v us) = insert (k, v) (set us)"
  by (induction us) (auto split: if_splits)

lemma set_obj_put: "set (obj_put k v us) \<subseteq> insert (k, v) (set us)"
  using set_obj_replace [of k v us] by (auto simp: obj_put_def set_obj_insert_index)

lemma set_obj_delete: "set (obj_delete k us) \<subseteq> set us"
  by (auto simp: obj_delete_def)

lemma obj_get_in_set: "obj_get us k = Some e \<Longrightarrow> (k, e) \<in> set us"
  by (simp add: obj_get_def map_of_SomeD)

lemma all_entries_put:
  "\<forall>p \<in> set us. P (snd p) \<Longrightarrow> P v \<Longrightarrow> \<forall>p \<in> set (obj_put k v us). P (snd p)"
  using set_obj_put [of k v us] by auto

lemma all_entries_delete:
  "\<forall>p \<in> set us. P (snd p) \<Longrightarrow> \<forall>p \<in> set (obj_delete k us). P (snd p)"
  using set_obj_delete [of k us] by auto

lemma all_entries_get: "\<forall>p \<in> set us. P (snd p) \<Longrightarrow> obj_get us k = Some e \<Longrightarrow> P e"
  using obj_get_in_set [of us k e] by fastforce

lemma all_entries_scan:
  assumes "\<forall>p \<in> set us. P (snd p)" "\<forall>p \<in> set rest. P (snd p)"
    and "\<And>d. P d \<Longrightarrow> set_delete s (socketIds d) \<noteq> [] \<Longrightarrow> P (d\<lparr>socketIds := set_delete s (socketIds d)\<rparr>)"
  shows "\<forall>p \<in> set (fst (disconnect_scan s us rest)). P (snd p)"
  using assms(2)
proof (induction rest)
  case Nil
  then show ?case using assms(1) by simp
next
  case (Cons p rest)
  obtain uid d where p: "p = (uid, d)" by (cases p)
  have Pd: "P d" using Cons.prems p by simp
  show ?case
  proof (cases "s \<in> set (socketIds d)")
    case False
    then show ?thesis using Cons p by simp
  next
    case True
    show ?thesis
    proof (cases "set_delete s (socketIds d) = []")
      case True
      then show ?thesis
        using \<open>s \<in> set (socketIds d)\<close> all_entries_delete [OF assms(1), of uid]
        by (simp add: p)
    next
      case False
      then show ?thesis
        using \<open>s \<in> set (socketIds d)\<close> all_entries_put [OF assms(1), of "d\<lparr>socketIds := set_delete s (socketIds d)\<rparr>" uid]
          assms(3) [OF Pd False]
        by (simp add: p Let_def)
    qed
  qed
qed


lemma errors_append: "errors (xs @ ys) = errors xs @ errors ys"
  by (induction xs rule: errors.induct) auto

lemma emits_map_Emit: "emits (map (\<lambda>c. Emit (f c) (g c)) xs) = map (\<lambda>c. (f c, g c)) xs"
  by (induction xs) auto

lemma errors_map_Emit: "errors (map (\<lambda>c. Emit (f c) (g c)) xs) = []"
  by (induction xs) auto

lemma users_get_Own: "obj_get (users st) k = Some e \<Longrightarrow> users_get st k = Own e"
  by (simp add: users_get_def)

lemma users_get_Own_iff: "users_get st k = Own e \<longleftrightarrow> obj_get (users st) k = Some e"
  by (simp add: users_get_def split: option.splits)

lemma users_get_not_Own: "obj_get (users st) k = None \<Longrightarrow> users_get st k \<noteq> Own e"
  by (simp add: users_get_def split: option.splits)

lemma register_entry_Own: "obj_get (users st) (to_key (r_userId p)) = Some e \<Longrightarrow> register_entry st p = Inr e"
  by (simp add: register_entry_def users_get_Own)

lemma register_entry_Inr:
  "register_entry st p = Inr e0 \<Longrightarrow>
   e0 = (case obj_get (users st) (to_key (r_userId p)) of Some e \<Rightarrow> e | None \<Rightarrow> new_entry p)"
  by (auto simp: register_entry_def users_get_def split: option.splits if_splits)

lemma users_registerUser:
  "users (fst (registerUser s p ok st)) =
     (case register_entry st p of
        Inl err \<Rightarrow> users st
      | Inr e0 \<Rightarrow>
          obj_put (to_key (r_userId p)) (e0\<lparr>socketIds := set_add s (socketIds e0)\<rparr>) (users st))"
  by (simp add: registerUser_def Let_def split: sum.splits)

lemma errors_registerUser:
  "errors (snd (registerUser s p ok st)) =
     (case register_entry st p of Inl err \<Rightarrow> [err] | Inr e0 \<Rightarrow> [])"
  by (simp add: registerUser_def Let_def registerUser_store_def registerUser_emits_def
      errors_append split: sum.splits)

lemma registerUser_throws:
  "register_entry st p = Inl err \<Longrightarrow>
   registerUser s p ok st = (st, [Log (RegisterUserLog (r_userId p) s), Throw err])"
  by (simp add: registerUser_def)

lemma write_fields_users:
  "write_fields st k upd pupd = Inr st1 \<Longrightarrow> users (pupd st) = users st \<Longrightarrow>
   users st1 = (case obj_get (users st) k of
                  Some e \<Rightarrow> obj_put k (upd e) (users st)
                | None \<Rightarrow> users st)"
  by (auto simp: write_fields_def users_get_def split: option.splits if_splits)

lemma write_fields_Own:
  "obj_get (users st) k = Some e \<Longrightarrow>
   write_fields st k upd pupd = Inr (st\<lparr>users := obj_put k (upd e) (users st)\<rparr>)"
  by (simp add: write_fields_def users_get_Own)

lemma write_fields_throws:
  "write_fields st k upd pupd = Inl err \<Longrightarrow> obj_get (users st) k = None"
  by (auto simp: write_fields_def users_get_def split: option.splits if_splits)

lemma users_userMoved:
  "users (fst (userMoved s uid x y ok st)) =
     (case obj_get (users st) (to_key uid) of
        Some e \<Rightarrow> obj_put (to_key uid) (e\<lparr>xpos := x, ypos := y\<rparr>) (users st)
      | None \<Rightarrow> users st)"
proof (cases "write_fields st (to_key uid) (\<lambda>e. e\<lparr>xpos := x, ypos := y\<rparr>)
             (\<lambda>st. st\<lparr>proto_x := Some x, proto_y := Some y\<rparr>)")
  case (Inl err)
  then show ?thesis using write_fields_throws [OF Inl] by (simp add: userMoved_def)
next
  case (Inr st1)
  then show ?thesis using write_fields_users [OF Inr] by (simp add: userMoved_def)
qed

lemma users_joinTable:
  "users (fst (joinTable s uid t ok st)) =
     (case obj_get (users st) (to_key uid) of
        Some e \<Rightarrow> obj_put (to_key uid) (e\<lparr>tableId := t\<rparr>) (users st)
      | None \<Rightarrow> users st)"
proof (cases "write_fields st (to_key uid) (\<lambda>e. e\<lparr>tableId := t\<rparr>)
             (\<lambda>st. st\<lparr>proto_tableId := Some t\<rparr>)")
  case (Inl err)
  then show ?thesis using write_fields_throws [OF Inl] by (simp add: joinTable_def)
next
  case (Inr st1)
  then show ?thesis using write_fields_users [OF Inr] by (simp add: joinTable_def)
qed

lemma users_disconnect:
  "users (fst (disconnect s st)) = fst (disconnect_scan s (users st) (users st))"
  by (simp add: disconnect_def split: prod.splits)

lemma relay_state: "fst (relay n d st) = st"
  by (simp add: relay_def split: sum.splits option.splits)

lemma video_offer_state: "fst (video_offer d st) = st"
  using relay_state [of "''video-offer''" d st]
  by (cases "relay ''video-offer'' d st") (simp add: video_offer_def)

lemma users_unchanged:
  "users (fst (tableCreated s t st)) = users st"
  "users (fst (markMessagesAsRead s c u ok st)) = users st"
  "users (fst (relay n d st)) = users st"
  "users (fst (video_offer d st)) = users st"
  by (simp_all add: tableCreated_def markMessagesAsRead_def relay_state video_offer_state)

lemma all_entries_handle:
  assumes inv: "\<forall>p \<in> set (users st). P (snd p)"
    and reg: "\<And>s p. P (new_entry p\<lparr>socketIds := [s]\<rparr>)"
    and add: "\<And>s d. P d \<Longrightarrow> P (d\<lparr>socketIds := set_add s (socketIds d)\<rparr>)"
    and del: "\<And>s d. P d \<Longrightarrow> set_delete s (socketIds d) \<noteq> [] \<Longrightarrow> P (d\<lparr>socketIds := set_delete s (socketIds d)\<rparr>)"
    and mov: "\<And>d x y. P d \<Longrightarrow> P (d\<lparr>xpos := x, ypos := y\<rparr>)"
    and tab: "\<And>d t. P d \<Longrightarrow> P (d\<lparr>tableId := t\<rparr>)"
  shows "\<forall>p \<in> set (users (fst (handle ev st))). P (snd p)"
proof (cases ev)
  case (On_registerUser s p ok)
  let ?k = "to_key (r_userId p)"
  show ?thesis
  proof (cases "register_entry st p")
    case (Inl err)
    then show ?thesis using inv On_registerUser by (simp add: users_registerUser)
  next
    case (Inr e0)
    have "P (e0\<lparr>socketIds := set_add s (socketIds e0)\<rparr>)"
    proof (cases "obj_get (users st) ?k")
      case None
      then have "e0 = new_entry p" using register_entry_Inr [OF Inr] by simp
      then show ?thesis using reg [of s p] by (simp add: new_entry_def set_add_def)
    next
      case (Some e)
      then have "e0 = e" using register_entry_Inr [OF Inr] by simp
      then show ?thesis using add [OF all_entries_get [OF inv Some]] by simp
    qed
    then show ?thesis
      using all_entries_put [OF inv] On_registerUser Inr by (simp add: users_registerUser)
  qed
next
  case (On_userMoved s uid x y ok)
  show ?thesis
  proof (cases "obj_get (users st) (to_key uid)")
    case None
    then show ?thesis using inv On_userMoved by (simp add: users_userMoved)
  next
    case (Some e)
    then show ?thesis
      using all_entries_put [OF inv mov [OF all_entries_get [OF inv Some]]] On_userMoved
      by (simp add: users_userMoved)
  qed
next
  case (On_joinTable s uid t ok)
  show ?thesis
  proof (cases "obj_get (users st) (to_key uid)")
    case None
    then show ?thesis using inv On_joinTable by (simp add: users_joinTable)
  next
    case (Some e)
    then show ?thesis
      using all_entries_put [OF inv tab [OF all_entries_get [OF inv Some]]] On_joinTable
      by (simp add: users_joinTable)
  qed
next
  case (On_disconnect s)
  then show ?thesis
    using all_entries_scan [OF inv inv, of s] del by (simp add: users_disconnect)
qed (use inv in \<open>simp_all add: users_unchanged\<close>)

lemma all_entries_run:
  assumes inv: "\<forall>p \<in> set (users st). P (snd p)"
    and reg: "\<And>s p. P (new_entry p\<lparr>socketIds := [s]\<rparr>)"
    and add: "\<And>s d. P d \<Longrightarrow> P (d\<lparr>socketIds := set_add s (socketIds d)\<rparr>)"
    and del: "\<And>s d. P d \<Longrightarrow> set_delete s (socketIds d) \<noteq> [] \<Longrightarrow> P (d\<lparr>socketIds := set_delete s (socketIds d)\<rparr>)"
    and mov: "\<And>d x y. P d \<Longrightarrow> P (d\<lparr>xpos := x, ypos := y\<rparr>)"
    and tab: "\<And>d t. P d \<Longrightarrow> P (d\<lparr>tableId := t\<rparr>)"
  shows "\<forall>p \<in> set (users (fst (run evs st))). P (snd p)"
  using inv
proof (induction evs arbitrary: st)
  case Nil
  then show ?case by simp
next
  case (Cons ev evs)
  have "\<forall>p \<in> set (users (fst (handle ev st))). P (snd p)"
    using Cons.prems reg add del mov tab by (rule all_entries_handle)
  from Cons.IH [OF this] show ?case
    by (simp add: Let_def split: prod.splits)
qed

lemma nonempty_handle:
  "nonempty_entries (users st) \<Longrightarrow> nonempty_entries (users (fst (handle ev st)))"
  unfolding nonempty_entries_def list_all_iff
  by (rule all_entries_handle) (simp_all add: set_add_def)

lemma nonempty_run:
  "nonempty_entries (users st) \<Longrightarrow> nonempty_entries (users (fst (run evs st)))"
  unfolding nonempty_entries_def list_all_iff
  by (rule all_entries_run) (simp_all add: set_add_def)

lemma distinct_sockets_run:
  "\<forall>p \<in> set (users st). distinct (socketIds (snd p)) \<Longrightarrow>
   \<forall>p \<in> set (users (fst (run evs st))). distinct (socketIds (snd p))"
  by (rule all_entries_run) (simp_all add: set_add_def set_delete_def distinct_removeAll)

section \<open>Steps and whole handlers\<close>

lemma run_Cons: "fst (run (ev # evs) st) = fst (run evs (fst (handle ev st)))"
  by (simp add: Let_def split: prod.splits)

lemma run_effects_Cons:
  "snd (run (ev # evs) st) = snd (handle ev st) @ snd (run evs (fst (handle ev st)))"
  by (simp add: Let_def split: prod.splits)

lemma run_append: "fst (run (evs @ evs') st) = fst (run evs' (fst (run evs st)))"
proof (induction evs arbitrary: st)
  case Nil
  show ?case by simp
next
  case (Cons ev evs)
  show ?case unfolding append_Cons run_Cons by (rule Cons.IH)
qed

lemma current_do_step: "current (fst (do_step stp sy)) = current (fst (act stp sy))"
  by (simp add: do_step_def)

lemma effects_do_step: "snd (do_step stp sy) = snd (act stp sy)"
  by (simp add: do_step_def)

lemma run_steps_Cons:
  "fst (run_steps (stp # stps) sy) = fst (run_steps stps (fst (do_step stp sy)))"
  by (simp add: Let_def split: prod.splits)

lemma run_steps_effects_Cons:
  "snd (run_steps (stp # stps) sy)
     = snd (do_step stp sy) @ snd (run_steps stps (fst (do_step stp sy)))"
  by (simp add: Let_def split: prod.splits)

lemma users_get_cong:
  "users st = users st' \<Longrightarrow> proto st = proto st' \<Longrightarrow> users_get st k = users_get st' k"
  by (simp add: users_get_def inherited_field_def proto_def split: option.splits)

lemma register_entry_cong:
  "users st = users st' \<Longrightarrow> proto st = proto st' \<Longrightarrow> register_entry st p = register_entry st' p"
  by (simp add: register_entry_def users_get_cong [of st st'])

lemma relay_target_cong:
  "users st = users st' \<Longrightarrow> proto st = proto st' \<Longrightarrow> relay_target st k = relay_target st' k"
  by (simp add: relay_target_def users_get_cong [of st st'])

lemma write_fields_cong:
  assumes "users st = users st'" "proto st = proto st'"
    and "users (pupd st) = users st \<and> users (pupd st') = users st' \<and> proto (pupd st) = proto (pupd st')"
  shows "(\<exists>err. write_fields st k upd pupd = Inl err \<and> write_fields st' k upd pupd = Inl err)
     \<or> (\<exists>a b. write_fields st k upd pupd = Inr a \<and> write_fields st' k upd pupd = Inr b
            \<and> users a = users b \<and> proto a = proto b)"
  using assms users_get_cong [OF assms(1,2), of k]
  by (cases "users_get st' k") (simp_all add: write_fields_def proto_def)

lemma registerUser_view:
  assumes "users st = users st'" "proto st = proto st'"
  shows "users (fst (registerUser s p ok st)) = users (fst (registerUser s p ok' st'))
     \<and> proto (fst (registerUser s p ok st)) = proto (fst (registerUser s p ok' st'))
     \<and> errors (snd (registerUser s p ok st)) = errors (snd (registerUser s p ok' st'))"
  using assms register_entry_cong [OF assms, of p]
  by (cases "register_entry st' p")
     (simp_all add: users_registerUser errors_registerUser,
      simp_all add: registerUser_def Let_def proto_def)

lemma userMoved_view:
  assumes "users st = users st'" "proto st = proto st'"
  shows "users (fst (userMoved s uid x y ok st)) = users (fst (userMoved s uid x y ok st'))
     \<and> proto (fst (userMoved s uid x y ok st)) = proto (fst (userMoved s uid x y ok st'))
     \<and> errors (snd (userMoved s uid x y ok st)) = errors (snd (userMoved s uid x y ok st'))"
proof -
  have "users (st\<lparr>proto_x := Some x, proto_y := Some y\<rparr>) = users st
      \<and> users (st'\<lparr>proto_x := Some x, proto_y := Some y\<rparr>) = users st'
      \<and> proto (st\<lparr>proto_x := Some x, proto_y := Some y\<rparr>)
          = proto (st'\<lparr>proto_x := Some x, proto_y := Some y\<rparr>)"
    using assms by (simp add: proto_def)
  from write_fields_cong [OF assms, of "\<lambda>st. st\<lparr>proto_x := Some x, proto_y := Some y\<rparr>",
      OF this, of "to_key uid" "\<lambda>e. e\<lparr>xpos := x, ypos := y\<rparr>"]
  show ?thesis using assms by (auto simp: userMoved_def proto_def)
qed

lemma joinTable_view:
  assumes "users st = users st'" "proto st = proto st'"
  shows "users (fst (joinTable s uid t ok st)) = users (fst (joinTable s uid t ok st'))
     \<and> proto (fst (joinTable s uid t ok st)) = proto (fst (joinTable s uid t ok st'))
     \<and> errors (snd (joinTable s uid t ok st)) = errors (snd (joinTable s uid t ok st'))"
proof -
  have "users (st\<lparr>proto_tableId := Some t\<rparr>) = users st
      \<and> users (st'\<lparr>proto_tableId := Some t\<rparr>) = users st'
      \<and> proto (st\<lparr>proto_tableId := Some t\<rparr>) = proto (st'\<lparr>proto_tableId := Some t\<rparr>)"
    using assms by (simp add: proto_def)
  from write_fields_cong [OF assms, of "\<lambda>st. st\<lparr>proto_tableId := Some t\<rparr>",
      OF this, of "to_key uid" "\<lambda>e. e\<lparr>tableId := t\<rparr>"]
  show ?thesis using assms by (auto simp: joinTable_def proto_def)
qed

lemma relay_view:
  assumes "users st = users st'" "proto st = proto st'"
  shows "errors (snd (relay n d st)) = errors (snd (relay n d st'))"
  using relay_target_cong [OF assms, of "to_key (v_to d)"]
  by (simp add: relay_def errors_map_Emit split: sum.splits option.splits)

lemma disconnect_view:
  assumes "users st = users st'" "proto st = proto st'"
  shows "users (fst (disconnect s st)) = users (fst (disconnect s st'))
     \<and> proto (fst (disconnect s st)) = proto (fst (disconnect s st'))"
  using assms by (simp add: disconnect_def proto_def split: prod.splits)

lemma proto_unchanged:
  "proto (fst (tableCreated s t st)) = proto st"
  "proto (fst (markMessagesAsRead s c u ok st)) = proto st"
  "proto (fst (relay n d st)) = proto st"
  "proto (fst (video_offer d st)) = proto st"
  "proto (fst (disconnect s st)) = proto st"
  by (simp_all add: tableCreated_def markMessagesAsRead_def relay_state video_offer_state
      disconnect_def proto_def split: prod.splits)

lemma handle_view:
  assumes "users st = users st'" "proto st = proto st'"
  shows "users (fst (handle ev st)) = users (fst (handle ev st'))
     \<and> proto (fst (handle ev st)) = proto (fst (handle ev st'))"
proof (cases ev)
  case (On_registerUser s p ok)
  then show ?thesis using registerUser_view [OF assms] by simp
next
  case (On_userMoved s uid x y ok)
  then show ?thesis using userMoved_view [OF assms] by simp
next
  case (On_joinTable s uid t ok)
  then show ?thesis using joinTable_view [OF assms] by simp
next
  case (On_disconnect s)
  then show ?thesis using disconnect_view [OF assms] by simp
qed (use assms in \<open>simp_all add: users_unchanged proto_unchanged\<close>)

lemma act_view:
  assumes "users (current sy) = users st" "proto (current sy) = proto st"
  shows "users (current (fst (act stp sy))) = users (fst (run (events_of [stp]) st))
     \<and> proto (current (fst (act stp sy))) = proto (fst (run (events_of [stp]) st))"
proof (cases stp)
  case (Atomic ev)
  then show ?thesis using handle_view [OF assms, of ev] by (simp add: Let_def split: prod.splits)
next
  case (Begin_registerUser s p)
  have "users (current (fst (act stp sy))) = users (fst (registerUser s p True (current sy)))
     \<and> proto (current (fst (act stp sy))) = proto (fst (registerUser s p True (current sy)))"
    unfolding Begin_registerUser
    by (cases "register_entry (current sy) p") (simp_all add: registerUser_def Let_def proto_def)
  then show ?thesis
    using registerUser_view [OF assms, of s p True True] Begin_registerUser
    by (simp add: Let_def split: prod.splits)
next
  case (FindOne_settled n ok)
  then show ?thesis using assms
    by (simp add: settle_def registerUser_store_def proto_def split: pending.splits option.splits)
next
  case (Save_settled n ok)
  then show ?thesis using assms
    by (simp add: settle_def Let_def proto_def split: pending.splits option.splits)
next
  case (Begin_markMessagesAsRead s c u)
  then show ?thesis using assms by (simp add: proto_def)
next
  case (UpdateMany_settled n ok)
  then show ?thesis using assms
    by (simp add: settle_def users_unchanged proto_unchanged split: pending.splits)
qed

lemma events_of_Cons: "events_of (stp # stps) = events_of [stp] @ events_of stps"
  by (cases stp) simp_all

lemma run_steps_view:
  "users (current sy) = users st \<Longrightarrow> proto (current sy) = proto st \<Longrightarrow>
   users (current (fst (run_steps stps sy))) = users (fst (run (events_of stps) st))
   \<and> proto (current (fst (run_steps stps sy))) = proto (fst (run (events_of stps) st))"
proof (induction stps arbitrary: sy st)
  case Nil
  then show ?case by simp
next
  case (Cons stp stps)
  have v: "users (current (fst (do_step stp sy))) = users (fst (run (events_of [stp]) st))"
    "proto (current (fst (do_step stp sy))) = proto (fst (run (events_of [stp]) st))"
    using act_view [OF Cons.prems, of stp] by (simp_all add: current_do_step)
  show ?case
    unfolding run_steps_Cons events_of_Cons [of stp stps] run_append
    by (rule Cons.IH [OF v])
qed

lemma users_run_steps:
  "users (current (fst (run_steps stps init_sys))) = final_users (events_of stps)"
  using run_steps_view [of init_sys init_state stps]
  by (simp add: init_sys_def final_users_def)

lemmas store_simps = obj_get_def obj_put_def obj_delete_def is_array_index_def is_digit_def
  index_value_def set_add_def set_delete_def connectionsFor_def

lemmas handler_simps = registerUser_def register_entry_def registerUser_store_def
  registerUser_emits_def users_get_def inherited_names_def inherited_field_def write_fields_def
  userMoved_def joinTable_def tableCreated_def markMessagesAsRead_def relay_target_def
  relay_def video_offer_def disconnect_def notifyUserFollowed_def
  new_entry_def js_or_def roster_def init_state_def Let_def new_hangout_def

lemma chat_state_users:
  "users chat_state =
     [(''A'', \<lparr>socketIds = [''a1''], firstName = JStr ''Alice'', lastName = JStr ''Liddell'',
               xpos = JNum 10, ypos = JNum 20, tableId = JNull\<rparr>),
      (''B'', \<lparr>socketIds = [''b1'', ''b2''], firstName = JStr ''Bob'', lastName = JStr [],
               xpos = JNum 100, ypos = JNum 100, tableId = JNull\<rparr>)]"
  by (simp add: chat_state_def store_simps handler_simps alice_def bob_def)

lemma chat_state_proto: "proto chat_state = (None, None, None)"
  by (simp add: chat_state_def store_simps handler_simps alice_def bob_def proto_def)

lemma chat_state_messages: "messages chat_state = example_messages"
  by (simp add: chat_state_def)

section \<open>Targeted relay to an offline user\<close>

lemma relay_offline:
  assumes "connectionsFor (users st) (to_key (v_to d)) = []"
  shows "fst (relay ev d st) = st \<and> emits (snd (relay ev d st)) = []
     \<and> errors (snd (relay ev d st))
        = (case relay_target st (to_key (v_to d)) of Inl err \<Rightarrow> [err] | Inr t \<Rightarrow> [])"
proof (cases "relay_target st (to_key (v_to d))")
  case (Inl err)
  then show ?thesis by (simp add: relay_def)
next
  case (Inr t)
  show ?thesis
  proof (cases t)
    case None
    then show ?thesis using Inr by (simp add: relay_def)
  next
    case (Some e)
    then have "users_get st (to_key (v_to d)) = Own e"
      using Inr by (auto simp: relay_target_def split: found.splits if_splits)
    then have "socketIds e = []"
      using assms by (simp add: users_get_Own_iff connectionsFor_def)
    then show ?thesis using Inr Some by (simp add: relay_def)
  qed
qed

text \<open>
  C4. A targeted relay to a user with no live connection pushes nothing and leaves the
  state as it was, and the follow notification does so without an error. A video event
  (\<^verbatim>\<open>video-offer\<close>, \<^verbatim>\<open>video-answer\<close>, \<^verbatim>\<open>video-ice-candidate\<close>, \<^verbatim>\<open>video-end\<close>) is dropped
  without an error when its target is no inherited property of the plain object
  \<^verbatim>\<open>users\<close>; for a target such as \<^verbatim>\<open>constructor\<close> the relay throws a \<^verbatim>\<open>TypeError\<close>, for
  want of the guard that the follow notification has.
\<close>

theorem offline_drop_silent:
  assumes "connectionsFor (users st) (to_key (v_to d)) = []"
    and "connectionsFor (users st) followed = []"
  shows "fst (handle (On_video_offer s d) st) = st \<and> emits (snd (handle (On_video_offer s d) st)) = []
    \<and> fst (handle (On_video_answer s d) st) = st \<and> emits (snd (handle (On_video_answer s d) st)) = []
    \<and> fst (handle (On_video_ice_candidate s d) st) = st
    \<and> emits (snd (handle (On_video_ice_candidate s d) st)) = []
    \<and> fst (handle (On_video_end s d) st) = st \<and> emits (snd (handle (On_video_end s d) st)) = []
    \<and> errors (snd (handle (On_video_offer s d) st))
        = (case relay_target st (to_key (v_to d)) of Inl err \<Rightarrow> [err] | Inr t \<Rightarrow> [])
    \<and> errors (snd (handle (On_video_answer s d) st))
        = (case relay_target st (to_key (v_to d)) of Inl err \<Rightarrow> [err] | Inr t \<Rightarrow> [])
    \<and> errors (snd (handle (On_video_ice_candidate s d) st))
        = (case relay_target st (to_key (v_to d)) of Inl err \<Rightarrow> [err] | Inr t \<Rightarrow> [])
    \<and> errors (snd (handle (On_video_end s d) st))
        = (case relay_target st (to_key (v_to d)) of Inl err \<Rightarrow> [err] | Inr t \<Rightarrow> [])
    \<and> (relay_target st (to_key (v_to d)) = Inl TypeError
         \<longleftrightarrow> obj_get (users st) (to_key (v_to d)) = None
            \<and> (case inherited_field st (to_key (v_to d)) of
                  Some v \<Rightarrow> truthy v
                | None \<Rightarrow> to_key (v_to d) \<in> set inherited_names))
    \<and> notifyUserFollowed io followed pl st
        = (st, if io then [Log (FollowedUserOffline followed)] else [])"
proof -
  have r: "\<And>ev. fst (relay ev d st) = st \<and> emits (snd (relay ev d st)) = []
     \<and> errors (snd (relay ev d st))
        = (case relay_target st (to_key (v_to d)) of Inl err \<Rightarrow> [err] | Inr t \<Rightarrow> [])"
    using assms(1) by (rule relay_offline)
  have o: "fst (video_offer d st) = st \<and> emits (snd (video_offer d st)) = []
     \<and> errors (snd (video_offer d st))
        = (case relay_target st (to_key (v_to d)) of Inl err \<Rightarrow> [err] | Inr t \<Rightarrow> [])"
    using r [of "''video-offer''"]
    by (cases "relay ''video-offer'' d st") (simp add: video_offer_def)
  have t: "relay_target st (to_key (v_to d)) = Inl TypeError
         \<longleftrightarrow> obj_get (users st) (to_key (v_to d)) = None
            \<and> (case inherited_field st (to_key (v_to d)) of
                  Some v \<Rightarrow> truthy v
                | None \<Rightarrow> to_key (v_to d) \<in> set inherited_names)"
    by (simp add: relay_target_def users_get_def split: option.splits)
  have n: "notifyUserFollowed io followed pl st
        = (st, if io then [Log (FollowedUserOffline followed)] else [])"
    using assms(2) by (simp add: notifyUserFollowed_def connectionsFor_def split: option.splits)
  show ?thesis using r o t n by simp
qed

theorem offline_drop_silent_witness:
  "connectionsFor (users chat_state) (to_key (v_to (call_to ''Z''))) = []
   \<and> connectionsFor (users chat_state) ''Z'' = []
   \<and> handle (On_video_offer ''a1'' (call_to ''Z'')) chat_state
       = (chat_state, [Log (VideoOfferLog (JStr ''A'') (JStr ''Z'')),
                       Log (OfflineDropping (JStr ''Z'') ''video-offer'')])
   \<and> errors (snd (handle (On_video_end ''a1'' (call_to ''Z'')) chat_state)) = []
   \<and> emits (snd (handle (On_video_end ''a1'' (call_to ''Z'')) chat_state)) = []
   \<and> emits (snd (handle (On_video_end ''a1'' (call_to ''B'')) chat_state))
       = [(To ''b1'', Signal ''video-end'' (call_to ''B'')),
          (To ''b2'', Signal ''video-end'' (call_to ''B''))]
   \<and> notifyUserFollowed True ''Z'' ''{}'' chat_state
       = (chat_state, [Log (FollowedUserOffline ''Z'')])
   \<and> connectionsFor (users chat_state) ''constructor'' = []
   \<and> handle (On_video_end ''a1'' (call_to ''constructor'')) chat_state
       = (chat_state, [Throw TypeError])
   \<and> notifyUserFollowed True ''constructor'' ''{}'' chat_state
       = (chat_state, [Log (FollowedUserOffline ''constructor'')])"
proof -
  have h: "connectionsFor (users chat_state) (to_key (v_to (call_to ''Z''))) = []"
    "connectionsFor (users chat_state) ''Z'' = []"
    by (simp_all add: connectionsFor_def obj_get_def chat_state_users call_to_def)
  have z: "relay_target chat_state ''Z'' = Inr None"
    using chat_state_proto
    by (simp add: relay_target_def users_get_def obj_get_def chat_state_users proto_def
        inherited_field_def inherited_names_def)
  have c: "relay_target chat_state ''constructor'' = Inl TypeError"
    using chat_state_proto
    by (simp add: relay_target_def users_get_def obj_get_def chat_state_users proto_def
        inherited_field_def inherited_names_def)
  have b: "relay_target chat_state ''B''
      = Inr (Some \<lparr>socketIds = [''b1'', ''b2''], firstName = JStr ''Bob'', lastName = JStr [],
               xpos = JNum 100, ypos = JNum 100, tableId = JNull\<rparr>)"
    by (simp add: relay_target_def users_get_def obj_get_def chat_state_users)
  show ?thesis
    using offline_drop_silent [OF h, of "''a1''" True "''{}''"] h
    by (simp add: z c b relay_def video_offer_def call_to_def notifyUserFollowed_def
        connectionsFor_def obj_get_def chat_state_users)
qed

section \<open>Entries are never empty\<close>

text \<open>
  C6. No entry of the user store is ever left with an empty set of connections: this
  holds after any sequence of events from the empty store, also when the steps of
  waiting handlers are interleaved with them, and every handler preserves it (the
  disconnect handler deletes the entry whose last connection it removes). An entry that
  \<^verbatim>\<open>registerUser\<close> creates or extends holds the registering connection; a
  \<^verbatim>\<open>registerUser\<close> that throws stores nothing.
\<close>

theorem entries_never_empty:
  "nonempty_entries (final_users evs)
   \<and> nonempty_entries (users (current (fst (run_steps stps init_sys))))
   \<and> (nonempty_entries (users st) \<longrightarrow> nonempty_entries (users (fst (handle ev st))))
   \<and> (errors (snd (registerUser s p ok st)) = [] \<longrightarrow>
        s \<in> set (connectionsFor (users (fst (registerUser s p ok st))) (to_key (r_userId p))))
   \<and> (errors (snd (registerUser s p ok st)) \<noteq> [] \<longrightarrow>
        users (fst (registerUser s p ok st)) = users st)
   \<and> (\<forall>k e. obj_get (users (fst (registerUser s p ok st))) k = Some e
                \<and> obj_get (users st) k = None \<longrightarrow> s \<in> set (socketIds e))"
proof -
  have a: "\<And>evs. nonempty_entries (final_users evs)"
    unfolding final_users_def by (rule nonempty_run) (simp add: init_state_def nonempty_entries_def)
  have b: "nonempty_entries (users (current (fst (run_steps stps init_sys))))"
    unfolding users_run_steps by (rule a)
  have c: "errors (snd (registerUser s p ok st)) = [] \<longrightarrow>
        s \<in> set (connectionsFor (users (fst (registerUser s p ok st))) (to_key (r_userId p)))"
    by (cases "register_entry st p")
       (simp_all add: errors_registerUser users_registerUser connectionsFor_def obj_get_put
          set_add_def)
  have d: "errors (snd (registerUser s p ok st)) \<noteq> [] \<longrightarrow>
        users (fst (registerUser s p ok st)) = users st"
    by (cases "register_entry st p") (simp_all add: errors_registerUser users_registerUser)
  have e: "\<forall>k e. obj_get (users (fst (registerUser s p ok st))) k = Some e
                \<and> obj_get (users st) k = None \<longrightarrow> s \<in> set (socketIds e)"
    by (cases "register_entry st p")
       (auto simp: users_registerUser obj_get_put set_add_def split: if_splits)
  show ?thesis using a [of evs] b c d e nonempty_handle by blast
qed

theorem entries_never_empty_witness:
  "nonempty_entries (final_users [On_registerUser ''c1'' alice True, On_disconnect ''c1''])
   \<and> nonempty_entries (users (fst (registerUser ''c1'' alice True init_state)))
   \<and> nonempty_entries
        (users (fst (handle (On_disconnect ''c1'') (fst (registerUser ''c1'' alice True init_state)))))
   \<and> users (fst (handle (On_disconnect ''c1'') (fst (registerUser ''c1'' alice True init_state)))) = []
   \<and> errors (snd (registerUser ''c1'' alice True init_state)) = []
   \<and> connectionsFor (users (fst (registerUser ''c1'' alice True init_state))) ''A'' = [''c1'']
   \<and> errors (snd (registerUser ''c1'' trudy True (fst (registerUser ''c1'' alice True init_state))))
       = [TypeError]
   \<and> users (fst (registerUser ''c1'' trudy True (fst (registerUser ''c1'' alice True init_state))))
       = users (fst (registerUser ''c1'' alice True init_state))"
  using entries_never_empty [where evs = "[On_registerUser ''c1'' alice True, On_disconnect ''c1'']"
      and st = "fst (registerUser ''c1'' alice True init_state)" and ev = "On_disconnect ''c1''"
      and s = "''c1''" and p = alice and ok = True]
  by (simp add: store_simps handler_simps alice_def trudy_def nonempty_entries_def)

section \<open>Idempotent registration\<close>

lemma count_list_distinct: "distinct xs \<Longrightarrow> count_list xs x = (if x \<in> set xs then 1 else 0)"
  by (induction xs) auto

lemma distinct_sockets_reachable:
  "\<forall>p \<in> set (users (fst (run evs init_state))). distinct (socketIds (snd p))"
  by (rule distinct_sockets_run) (simp add: init_state_def)

lemma obj_replace_same: "map_of us k = Some v \<Longrightarrow> obj_replace k v us = us"
  by (induction us) (auto split: if_splits)

lemma obj_put_same: "obj_get us k = Some v \<Longrightarrow> obj_put k v us = us"
  using obj_get_in_set [of us k v]
  by (auto simp: obj_put_def obj_replace_same obj_get_def rev_image_eqI)

lemma obj_put_idem: "obj_put k v (obj_put k v us) = obj_put k v us"
  by (rule obj_put_same) (simp add: obj_get_put)

lemma register_entry_throws:
  "(\<exists>err. register_entry st p = Inl err)
     \<longleftrightarrow> obj_get (users st) (to_key (r_userId p)) = None
         \<and> (case inherited_field st (to_key (r_userId p)) of
              Some v \<Rightarrow> v \<noteq> JUndefined \<and> v \<noteq> JNull
            | None \<Rightarrow> to_key (r_userId p) \<in> set inherited_names)"
  by (simp add: register_entry_def users_get_def split: option.splits)

text \<open>
  C7. Registration is idempotent where it succeeds, and it does not succeed for every
  user id. In any state reached from the empty store, when the registration of the pair
  (user, connection) does not throw, the same pair registers a second time without
  throwing, the user's entry then holds the connection once, and the second
  registration has left the user store as the first one made it. A registration for a
  user who has an entry only adds the connection to the entry's \<^verbatim>\<open>socketIds\<close>: names,
  position and table stay as they were. The registration throws \<^verbatim>\<open>TypeError\<close>, and then
  stores nothing and emits nothing, exactly when the user has no entry and the user id
  names a property that the plain object \<^verbatim>\<open>users\<close> inherits with a value other than
  \<^verbatim>\<open>undefined\<close> and \<^verbatim>\<open>null\<close>: after such a registration \<^verbatim>\<open>connectionsFor\<close> does not hold the
  connection.
\<close>

theorem registration_idempotent:
  assumes "to_key (r_userId p') = to_key (r_userId p)"
  shows "(errors (snd (registerUser s p ok (fst (run evs init_state)))) = [] \<longrightarrow>
           count_list (connectionsFor
              (users (fst (registerUser s p' ok' (fst (registerUser s p ok (fst (run evs init_state)))))))
              (to_key (r_userId p))) s = 1
         \<and> users (fst (registerUser s p' ok' (fst (registerUser s p ok (fst (run evs init_state))))))
             = users (fst (registerUser s p ok (fst (run evs init_state))))
         \<and> errors (snd (registerUser s p' ok' (fst (registerUser s p ok (fst (run evs init_state))))))
             = [])
     \<and> (\<forall>e. obj_get (users st) (to_key (r_userId p)) = Some e \<longrightarrow>
           obj_get (users (fst (registerUser s p ok st))) (to_key (r_userId p))
             = Some (e\<lparr>socketIds := set_add s (socketIds e)\<rparr>)
           \<and> errors (snd (registerUser s p ok st)) = [])
     \<and> (errors (snd (registerUser s p ok st)) \<noteq> []
          \<longleftrightarrow> obj_get (users st) (to_key (r_userId p)) = None
              \<and> (case inherited_field st (to_key (r_userId p)) of
                   Some v \<Rightarrow> v \<noteq> JUndefined \<and> v \<noteq> JNull
                 | None \<Rightarrow> to_key (r_userId p) \<in> set inherited_names))
     \<and> (errors (snd (registerUser s p ok st)) \<noteq> [] \<longrightarrow>
          registerUser s p ok st = (st, [Log (RegisterUserLog (r_userId p) s), Throw TypeError])
          \<and> connectionsFor (users (fst (registerUser s p ok st))) (to_key (r_userId p)) = [])"
proof -
  let ?k = "to_key (r_userId p)"
  let ?st = "fst (run evs init_state)"
  let ?st1 = "fst (registerUser s p ok ?st)"
  let ?st2 = "fst (registerUser s p' ok' ?st1)"
  have a: "count_list (connectionsFor (users ?st2) ?k) s = 1 \<and> users ?st2 = users ?st1
        \<and> errors (snd (registerUser s p' ok' ?st1)) = []"
    if ne: "errors (snd (registerUser s p ok ?st)) = []"
  proof -
    obtain e0 where e0: "register_entry ?st p = Inr e0"
      using ne by (cases "register_entry ?st p") (simp_all add: errors_registerUser)
    define e1 where "e1 = e0\<lparr>socketIds := set_add s (socketIds e0)\<rparr>"
    have u1: "users ?st1 = obj_put ?k e1 (users ?st)"
      using e0 by (simp add: users_registerUser e1_def)
    have e1: "obj_get (users ?st1) ?k = Some e1"
      by (simp add: u1 obj_get_put)
    have "distinct (socketIds e0)"
    proof (cases "obj_get (users ?st) ?k")
      case None
      then have "e0 = new_entry p"
        using e0 by (simp add: register_entry_def users_get_def split: option.splits if_splits)
      then show ?thesis by (simp add: new_entry_def)
    next
      case (Some e)
      then have "e0 = e" using e0 register_entry_Own [of ?st p e] by simp
      moreover have "distinct (socketIds e)"
        using distinct_sockets_reachable [of evs] obj_get_in_set [OF Some] by fastforce
      ultimately show ?thesis by simp
    qed
    then have d1: "distinct (socketIds e1)" and s1: "s \<in> set (socketIds e1)"
      by (simp_all add: e1_def set_add_def)
    have same: "e1\<lparr>socketIds := set_add s (socketIds e1)\<rparr> = e1"
      using s1 by (simp add: set_add_def)
    have r2: "register_entry ?st1 p' = Inr e1"
      using e1 assms register_entry_Own [of ?st1 p' e1] by simp
    have u2: "users ?st2 = users ?st1"
      using r2 same assms obj_put_same [OF e1] by (simp add: users_registerUser [of s p'])
    have "errors (snd (registerUser s p' ok' ?st1)) = []"
      using r2 by (simp add: errors_registerUser)
    moreover have "count_list (connectionsFor (users ?st2) ?k) s = 1"
      using e1 s1 d1 by (simp add: u2 connectionsFor_def count_list_distinct)
    ultimately show ?thesis using u2 by simp
  qed
  have b: "\<forall>e. obj_get (users st) ?k = Some e \<longrightarrow>
           obj_get (users (fst (registerUser s p ok st))) ?k
             = Some (e\<lparr>socketIds := set_add s (socketIds e)\<rparr>)
           \<and> errors (snd (registerUser s p ok st)) = []"
    using register_entry_Own [of st p]
    by (simp add: users_registerUser errors_registerUser obj_get_put)
  have c: "errors (snd (registerUser s p ok st)) \<noteq> []
          \<longleftrightarrow> obj_get (users st) ?k = None
              \<and> (case inherited_field st ?k of
                   Some v \<Rightarrow> v \<noteq> JUndefined \<and> v \<noteq> JNull
                 | None \<Rightarrow> ?k \<in> set inherited_names)"
    using register_entry_throws [of st p]
    by (cases "register_entry st p") (simp_all add: errors_registerUser)
  have d: "registerUser s p ok st = (st, [Log (RegisterUserLog (r_userId p) s), Throw TypeError])
          \<and> connectionsFor (users (fst (registerUser s p ok st))) ?k = []"
    if thrown: "errors (snd (registerUser s p ok st)) \<noteq> []"
  proof -
    obtain err where err: "register_entry st p = Inl err"
      using thrown by (cases "register_entry st p") (simp_all add: errors_registerUser)
    have "err = TypeError" by (cases err) simp
    moreover have "obj_get (users st) ?k = None"
      using thrown c by simp
    ultimately show ?thesis using err by (simp add: registerUser_def connectionsFor_def)
  qed
  show ?thesis using a b c d by blast
qed

theorem registration_idempotent_witness:
  "to_key (r_userId alice) = to_key (r_userId (alice\<lparr>r_firstName := JStr ''Alicia'', r_x := JNum 55\<rparr>))
   \<and> errors (snd (registerUser ''c1'' (alice\<lparr>r_firstName := JStr ''Alicia'', r_x := JNum 55\<rparr>) True
         (fst (run [On_registerUser ''b1'' bob True] init_state)))) = []
   \<and> count_list (connectionsFor
         (users (fst (registerUser ''c1'' alice True
            (fst (registerUser ''c1'' (alice\<lparr>r_firstName := JStr ''Alicia'', r_x := JNum 55\<rparr>) True
                (fst (run [On_registerUser ''b1'' bob True] init_state))))))) ''A'') ''c1'' = 1
   \<and> obj_get (users (fst (registerUser ''c1'' alice True init_state))) ''A''
       = Some \<lparr>socketIds = [''c1''], firstName = JStr ''Alice'', lastName = JStr ''Liddell'',
               xpos = JNum 10, ypos = JNum 20, tableId = JNull\<rparr>
   \<and> obj_get (users (fst (registerUser ''c2'' (alice\<lparr>r_firstName := JStr ''Alicia'', r_x := JNum 55\<rparr>) True
          (fst (registerUser ''c1'' alice True init_state))))) ''A''
       = Some \<lparr>socketIds = [''c1'', ''c2''], firstName = JStr ''Alice'', lastName = JStr ''Liddell'',
               xpos = JNum 10, ypos = JNum 20, tableId = JNull\<rparr>
   \<and> errors (snd (registerUser ''t1'' trudy True chat_state)) \<noteq> []
   \<and> registerUser ''t1'' trudy True chat_state
       = (chat_state, [Log (RegisterUserLog (JStr ''constructor'') ''t1''), Throw TypeError])
   \<and> connectionsFor (users (fst (registerUser ''t1'' trudy True
         (fst (registerUser ''t1'' trudy True chat_state))))) ''constructor'' = []"
proof -
  have t: "register_entry chat_state trudy = Inl TypeError"
    using chat_state_proto
    by (simp add: register_entry_def users_get_def obj_get_def chat_state_users trudy_def
        proto_def inherited_field_def inherited_names_def)
  have tr: "registerUser ''t1'' trudy True chat_state
      = (chat_state, [Log (RegisterUserLog (JStr ''constructor'') ''t1''), Throw TypeError])"
    by (simp add: registerUser_def t) (simp add: trudy_def)
  have b: "errors (snd (registerUser ''t1'' trudy True chat_state)) \<noteq> []
      \<and> connectionsFor (users (fst (registerUser ''t1'' trudy True
            (fst (registerUser ''t1'' trudy True chat_state))))) ''constructor'' = []"
    using registration_idempotent [where p = trudy and p' = trudy and s = "''t1''" and ok = True
        and st = chat_state]
    by (simp add: tr) (simp add: trudy_def)
  have a: "to_key (r_userId alice) = to_key (r_userId (alice\<lparr>r_firstName := JStr ''Alicia'', r_x := JNum 55\<rparr>))
   \<and> errors (snd (registerUser ''c1'' (alice\<lparr>r_firstName := JStr ''Alicia'', r_x := JNum 55\<rparr>) True
         (fst (run [On_registerUser ''b1'' bob True] init_state)))) = []
   \<and> count_list (connectionsFor
         (users (fst (registerUser ''c1'' alice True
            (fst (registerUser ''c1'' (alice\<lparr>r_firstName := JStr ''Alicia'', r_x := JNum 55\<rparr>) True
                (fst (run [On_registerUser ''b1'' bob True] init_state))))))) ''A'') ''c1'' = 1
   \<and> obj_get (users (fst (registerUser ''c1'' alice True init_state))) ''A''
       = Some \<lparr>socketIds = [''c1''], firstName = JStr ''Alice'', lastName = JStr ''Liddell'',
               xpos = JNum 10, ypos = JNum 20, tableId = JNull\<rparr>
   \<and> obj_get (users (fst (registerUser ''c2'' (alice\<lparr>r_firstName := JStr ''Alicia'', r_x := JNum 55\<rparr>) True
          (fst (registerUser ''c1'' alice True init_state))))) ''A''
       = Some \<lparr>socketIds = [''c1'', ''c2''], firstName = JStr ''Alice'', lastName = JStr ''Liddell'',
               xpos = JNum 10, ypos = JNum 20, tableId = JNull\<rparr>"
    using
      registration_idempotent [where p = "alice\<lparr>r_firstName := JStr ''Alicia'', r_x := JNum 55\<rparr>"
        and p' = alice and s = "''c1''" and ok = True and ok' = True
        and evs = "[On_registerUser ''b1'' bob True]"
        and st = "fst (registerUser ''c1'' alice True init_state)"]
      registration_idempotent [where p = "alice\<lparr>r_firstName := JStr ''Alicia'', r_x := JNum 55\<rparr>"
        and p' = "alice\<lparr>r_firstName := JStr ''Alicia'', r_x := JNum 55\<rparr>"
        and s = "''c2''" and ok = True and ok' = True and evs = "[]"
        and st = "fst (registerUser ''c1'' alice True init_state)"]
    by (simp add: store_simps handler_simps alice_def bob_def)
  show ?thesis using a b tr by simp
qed

section \<open>Failures of the store\<close>

text \<open>
  C8, as claimed, fails for the read receipt: with Bob online on \<open>b1\<close>, the handler of
  \<^verbatim>\<open>markMessagesAsRead\<close> pushes \<^verbatim>\<open>messagesRead\<close> when the update succeeds and pushes
  nothing when the update throws, because the push stands inside the \<^verbatim>\<open>try\<close> block after
  the awaited update.
\<close>

theorem store_failure_counterexample:
  "emits (snd (markMessagesAsRead ''b1'' ''C'' ''B'' True (fst (registerUser ''b1'' bob True init_state))))
     = [(To ''b1'', MessagesRead ''C'' ''B'')]
   \<and> markMessagesAsRead ''b1'' ''C'' ''B'' False (fst (registerUser ''b1'' bob True init_state))
     = (fst (registerUser ''b1'' bob True init_state), [Log MarkMessagesAsReadError])
   \<and> emits (snd (markMessagesAsRead ''b1'' ''C'' ''B'' False (fst (registerUser ''b1'' bob True init_state)))) = []"
  by (simp add: store_simps handler_simps bob_def)

text \<open>
  C8, amended. When the store fails during \<^verbatim>\<open>registerUser\<close>, \<^verbatim>\<open>userMoved\<close> or
  \<^verbatim>\<open>joinTable\<close>, the user store and the pushes are those of the run in which the store
  succeeds, and the failure is logged whenever the handler has reached its store call,
  that is whenever it has not thrown before; a handler that throws before its store
  call does the same whatever the store would have answered. When the store fails
  during \<^verbatim>\<open>markMessagesAsRead\<close>, the failure is logged, the state is unchanged and nothing
  is pushed. The same holds when other events are handled while \<^verbatim>\<open>registerUser\<close> waits:
  whether \<^verbatim>\<open>findOne\<close> rejects, or \<^verbatim>\<open>save\<close> rejects or resolves, the handler then sends the
  roster and the broadcast with the user store of that moment, which the store call
  has not changed.
\<close>

theorem store_failure_nonfatal:
  "users (fst (registerUser s p False st)) = users (fst (registerUser s p True st))
   \<and> emits (snd (registerUser s p False st)) = emits (snd (registerUser s p True st))
   \<and> (errors (snd (registerUser s p False st)) = [] \<longrightarrow>
        Log DbErrorRegisterUser \<in> set (snd (registerUser s p False st)))
   \<and> (errors (snd (registerUser s p False st)) \<noteq> [] \<longrightarrow>
        registerUser s p False st = registerUser s p True st)
   \<and> users (fst (userMoved s uid x y False st)) = users (fst (userMoved s uid x y True st))
   \<and> emits (snd (userMoved s uid x y False st)) = emits (snd (userMoved s uid x y True st))
   \<and> (errors (snd (userMoved s uid x y False st)) = [] \<longrightarrow>
        Log DbErrorUserMoved \<in> set (snd (userMoved s uid x y False st)))
   \<and> (errors (snd (userMoved s uid x y False st)) \<noteq> [] \<longrightarrow>
        userMoved s uid x y False st = userMoved s uid x y True st)
   \<and> users (fst (joinTable s uid t False st)) = users (fst (joinTable s uid t True st))
   \<and> emits (snd (joinTable s uid t False st)) = emits (snd (joinTable s uid t True st))
   \<and> (errors (snd (joinTable s uid t False st)) = [] \<longrightarrow>
        Log DbErrorJoinTable \<in> set (snd (joinTable s uid t False st)))
   \<and> (errors (snd (joinTable s uid t False st)) \<noteq> [] \<longrightarrow>
        joinTable s uid t False st = joinTable s uid t True st)
   \<and> markMessagesAsRead s c u False st = (st, [Log MarkMessagesAsReadError])
   \<and> (pending_at sy n = Reg w \<and> c_rec w = None \<longrightarrow>
        users (current (fst (act (FindOne_settled n False) sy))) = users (current sy)
        \<and> snd (act (FindOne_settled n False) sy)
            = Log DbErrorRegisterUser
              # registerUser_emits (c_sid w) (c_payload w) (c_x w) (c_y w) (users (current sy)))
   \<and> (pending_at sy n = Reg w \<and> c_rec w \<noteq> None \<longrightarrow>
        users (current (fst (act (Save_settled n False) sy))) = users (current sy)
        \<and> snd (act (Save_settled n False) sy)
            = Log DbErrorRegisterUser
              # registerUser_emits (c_sid w) (c_payload w) (c_x w) (c_y w) (users (current sy))
        \<and> emits (snd (act (Save_settled n True) sy)) = emits (snd (act (Save_settled n False) sy)))"
proof -
  have r: "users (fst (registerUser s p False st)) = users (fst (registerUser s p True st))
     \<and> emits (snd (registerUser s p False st)) = emits (snd (registerUser s p True st))
     \<and> (errors (snd (registerUser s p False st)) = [] \<longrightarrow>
          Log DbErrorRegisterUser \<in> set (snd (registerUser s p False st)))
     \<and> (errors (snd (registerUser s p False st)) \<noteq> [] \<longrightarrow>
          registerUser s p False st = registerUser s p True st)"
    by (cases "register_entry st p")
       (simp_all add: registerUser_def registerUser_store_def registerUser_emits_def Let_def)
  have m: "users (fst (userMoved s uid x y False st)) = users (fst (userMoved s uid x y True st))
     \<and> emits (snd (userMoved s uid x y False st)) = emits (snd (userMoved s uid x y True st))
     \<and> (errors (snd (userMoved s uid x y False st)) = [] \<longrightarrow>
          Log DbErrorUserMoved \<in> set (snd (userMoved s uid x y False st)))
     \<and> (errors (snd (userMoved s uid x y False st)) \<noteq> [] \<longrightarrow>
          userMoved s uid x y False st = userMoved s uid x y True st)"
    by (simp add: userMoved_def split: sum.splits)
  have j: "users (fst (joinTable s uid t False st)) = users (fst (joinTable s uid t True st))
     \<and> emits (snd (joinTable s uid t False st)) = emits (snd (joinTable s uid t True st))
     \<and> (errors (snd (joinTable s uid t False st)) = [] \<longrightarrow>
          Log DbErrorJoinTable \<in> set (snd (joinTable s uid t False st)))
     \<and> (errors (snd (joinTable s uid t False st)) \<noteq> [] \<longrightarrow>
          joinTable s uid t False st = joinTable s uid t True st)"
    by (simp add: joinTable_def split: sum.splits)
  have k: "markMessagesAsRead s c u False st = (st, [Log MarkMessagesAsReadError])"
    by (simp add: markMessagesAsRead_def)
  have f: "pending_at sy n = Reg w \<and> c_rec w = None \<longrightarrow>
        users (current (fst (act (FindOne_settled n False) sy))) = users (current sy)
        \<and> snd (act (FindOne_settled n False) sy)
            = Log DbErrorRegisterUser
              # registerUser_emits (c_sid w) (c_payload w) (c_x w) (c_y w) (users (current sy))"
    by (simp add: settle_def)
  have g: "pending_at sy n = Reg w \<and> c_rec w \<noteq> None \<longrightarrow>
        users (current (fst (act (Save_settled n False) sy))) = users (current sy)
        \<and> snd (act (Save_settled n False) sy)
            = Log DbErrorRegisterUser
              # registerUser_emits (c_sid w) (c_payload w) (c_x w) (c_y w) (users (current sy))
        \<and> emits (snd (act (Save_settled n True) sy)) = emits (snd (act (Save_settled n False) sy))"
    by (auto simp: settle_def registerUser_store_def Let_def)
  show ?thesis using r m j k f g by blast
qed

theorem store_failure_nonfatal_witness:
  "errors (snd (registerUser ''a1'' alice False chat_state)) = []
   \<and> Log DbErrorRegisterUser \<in> set (snd (registerUser ''a1'' alice False chat_state))
   \<and> errors (snd (userMoved ''a1'' (JStr ''A'') (JNum 1) (JNum 2) False chat_state)) = []
   \<and> snd (userMoved ''a1'' (JStr ''A'') (JNum 1) (JNum 2) False chat_state)
       = [Emit (OthersOf ''a1'') (UserMoved (JStr ''A'') (JNum 1) (JNum 2)), Log DbErrorUserMoved]
   \<and> errors (snd (joinTable ''a1'' (JStr ''A'') (JStr ''t1'') False chat_state)) = []
   \<and> snd (joinTable ''a1'' (JStr ''A'') (JStr ''t1'') False chat_state)
       = [Emit (OthersOf ''a1'') (TableJoined (JStr ''A'') (JStr ''t1'')), Log DbErrorJoinTable]
   \<and> errors (snd (registerUser ''t1'' trudy False chat_state)) \<noteq> []
   \<and> registerUser ''t1'' trudy False chat_state = registerUser ''t1'' trudy True chat_state
   \<and> pending_at (fst (run_steps [Begin_registerUser ''a1'' alice] init_sys)) 0
       = Reg \<lparr>c_sid = ''a1'', c_payload = alice, c_gone = False,
              c_x = JNum 10, c_y = JNum 20, c_rec = None\<rparr>
   \<and> emits (snd (act (FindOne_settled 0 False) (fst (run_steps [Begin_registerUser ''a1'' alice] init_sys))))
       = [(To ''a1'', ExistingUsers [RosterItem ''A'' (JStr ''Alice'') (JStr ''Liddell'') (JNum 10) (JNum 20) JNull]),
          (OthersOf ''a1'', UserJoined (JStr ''A'') (JStr ''Alice'') (JStr ''Liddell'') (JNum 10) (JNum 20))]"
proof -
  have u: "users_get chat_state ''A'' = Own \<lparr>socketIds = [''a1''], firstName = JStr ''Alice'',
        lastName = JStr ''Liddell'', xpos = JNum 10, ypos = JNum 20, tableId = JNull\<rparr>"
    by (simp add: users_get_def obj_get_def chat_state_users)
  have t: "register_entry chat_state trudy = Inl TypeError"
    using chat_state_proto
    by (simp add: register_entry_def users_get_def obj_get_def chat_state_users trudy_def
        proto_def inherited_field_def inherited_names_def)
  have tr: "registerUser ''t1'' trudy ok chat_state
      = (chat_state, [Log (RegisterUserLog (r_userId trudy) ''t1''), Throw TypeError])" for ok
    by (simp add: registerUser_def t)
  have ra: "register_entry chat_state alice = Inr \<lparr>socketIds = [''a1''], firstName = JStr ''Alice'',
        lastName = JStr ''Liddell'', xpos = JNum 10, ypos = JNum 20, tableId = JNull\<rparr>"
    using u by (simp add: register_entry_def alice_def)
  have p: "pending_at (fst (run_steps [Begin_registerUser ''a1'' alice] init_sys)) 0
       = Reg \<lparr>c_sid = ''a1'', c_payload = alice, c_gone = False,
              c_x = JNum 10, c_y = JNum 20, c_rec = None\<rparr>"
    by (simp add: do_step_def refresh_def pending_at_def init_sys_def
        store_simps handler_simps alice_def)
  have c: "users (current (fst (run_steps [Begin_registerUser ''a1'' alice] init_sys)))
       = [(''A'', \<lparr>socketIds = [''a1''], firstName = JStr ''Alice'', lastName = JStr ''Liddell'',
               xpos = JNum 10, ypos = JNum 20, tableId = JNull\<rparr>)]"
    by (simp add: do_step_def init_sys_def store_simps handler_simps alice_def)
  show ?thesis
    using store_failure_nonfatal [where s = "''a1''" and p = alice and st = chat_state
        and uid = "JStr ''A''" and x = "JNum 1" and y = "JNum 2" and t = "JStr ''t1''"
        and sy = "fst (run_steps [Begin_registerUser ''a1'' alice] init_sys)" and n = 0
        and w = "\<lparr>c_sid = ''a1'', c_payload = alice, c_gone = False,
              c_x = JNum 10, c_y = JNum 20, c_rec = None\<rparr>"]
      store_failure_nonfatal [where s = "''t1''" and p = trudy and st = chat_state]
    unfolding p c
    by (simp add: u tr [unfolded trudy_def] ra [unfolded alice_def] errors_registerUser
        userMoved_def joinTable_def write_fields_def alice_def trudy_def
        registerUser_emits_def roster_def)
qed

section \<open>Events without a user id\<close>




section \<open>Read receipts\<close>

lemma length_updateMany_read: "length (updateMany_read c b ms) = length ms"
  by (simp add: updateMany_read_def)

lemma nth_updateMany_read: "i < length ms \<Longrightarrow>
         updateMany_read c b ms ! i =
           (if m_chatId (ms ! i) = c \<and> b \<notin> set (m_isReadBy (ms ! i))
               \<and> m_senderId (ms ! i) \<noteq> b
            then (ms ! i)\<lparr>m_isReadBy := m_isReadBy (ms ! i) @ [b]\<rparr>
            else ms ! i)"
  by (simp add: updateMany_read_def)

lemma updateMany_read_marks:
  assumes "m \<in> set (updateMany_read c b ms)" "m_chatId m = c" "m_senderId m \<noteq> b"
  shows "b \<in> set (m_isReadBy m)"
proof -
  define f :: "message \<Rightarrow> message" where "f = (\<lambda>m. if m_chatId m = c \<and> b \<notin> set (m_isReadBy m) \<and> m_senderId m \<noteq> b
              then m\<lparr>m_isReadBy := m_isReadBy m @ [b]\<rparr> else m)"
  have "m \<in> f ` set ms"
    using assms(1) unfolding updateMany_read_def f_def by simp
  then obtain m0 where m: "m = f m0" by blast
  show ?thesis
  proof (cases "m_chatId m0 = c \<and> b \<notin> set (m_isReadBy m0) \<and> m_senderId m0 \<noteq> b")
    case True
    then have "m_isReadBy (f m0) = m_isReadBy m0 @ [b]" by (simp add: f_def)
    then show ?thesis unfolding m by simp
  next
    case False
    then have "f m0 = m0" by (simp add: f_def)
    then show ?thesis using False assms(2,3) unfolding m by auto
  qed
qed

text \<open>
  C3, as claimed, fails in its last part: with Alice online on \<open>a1\<close> and Bob on \<open>b1\<close> and
  \<open>b2\<close>, Bob's \<^verbatim>\<open>markMessagesAsRead\<close> is pushed to \<open>b1\<close> and \<open>b2\<close>, the connections of
  the reader, and not to \<open>a1\<close>.
\<close>

theorem read_receipt_counterexample:
  "connectionsFor (users chat_state) ''A'' = [''a1'']
   \<and> connectionsFor (users chat_state) ''B'' = [''b1'', ''b2'']
   \<and> emits (snd (markMessagesAsRead ''b1'' ''C'' ''B'' True chat_state))
      = [(To ''b1'', MessagesRead ''C'' ''B''), (To ''b2'', MessagesRead ''C'' ''B'')]"
  by (simp add: chat_state_users markMessagesAsRead_def connectionsFor_def obj_get_def emits_map_Emit)

text \<open>
  C3, amended. When the update of the store succeeds, \<^verbatim>\<open>markMessagesAsRead\<close> with chat
  \<open>c\<close> and reader \<open>b\<close> leaves every message of \<open>c\<close> that \<open>b\<close> did not send read by \<open>b\<close>:
  a message of \<open>c\<close> not sent by \<open>b\<close> and not yet read by \<open>b\<close> gets \<open>b\<close> appended to
  \<^verbatim>\<open>isReadBy\<close>, every other message is unchanged. The user store is unchanged, and
  \<^verbatim>\<open>messagesRead\<close> goes to the live connections of \<open>b\<close>, the reader, and to no other.
\<close>

theorem read_receipt:
  "length (messages (fst (markMessagesAsRead s c b True st))) = length (messages st)
   \<and> (\<forall>m \<in> set (messages (fst (markMessagesAsRead s c b True st))).
         m_chatId m = c \<and> m_senderId m \<noteq> b \<longrightarrow> b \<in> set (m_isReadBy m))
   \<and> (\<forall>i < length (messages st).
         messages (fst (markMessagesAsRead s c b True st)) ! i =
           (if m_chatId (messages st ! i) = c \<and> b \<notin> set (m_isReadBy (messages st ! i))
               \<and> m_senderId (messages st ! i) \<noteq> b
            then (messages st ! i)\<lparr>m_isReadBy := m_isReadBy (messages st ! i) @ [b]\<rparr>
            else messages st ! i))
   \<and> users (fst (markMessagesAsRead s c b True st)) = users st
   \<and> emits (snd (markMessagesAsRead s c b True st))
      = map (\<lambda>x. (To x, MessagesRead c b)) (connectionsFor (users st) b)"
proof -
  have m: "messages (fst (markMessagesAsRead s c b True st)) = updateMany_read c b (messages st)"
    by (simp add: markMessagesAsRead_def)
  have u: "users (fst (markMessagesAsRead s c b True st)) = users st"
    by (simp add: markMessagesAsRead_def)
  have e: "emits (snd (markMessagesAsRead s c b True st))
      = map (\<lambda>x. (To x, MessagesRead c b)) (connectionsFor (users st) b)"
    by (simp add: markMessagesAsRead_def emits_map_Emit)
  show ?thesis
    unfolding m
  proof (intro conjI ballI allI impI)
    show "length (updateMany_read c b (messages st)) = length (messages st)"
      by (rule length_updateMany_read)
  next
    fix m assume "m \<in> set (updateMany_read c b (messages st))" "m_chatId m = c \<and> m_senderId m \<noteq> b"
    then show "b \<in> set (m_isReadBy m)"
      using updateMany_read_marks [of m c b "messages st"] by blast
  next
    fix i assume "i < length (messages st)"
    then show "updateMany_read c b (messages st) ! i =
           (if m_chatId (messages st ! i) = c \<and> b \<notin> set (m_isReadBy (messages st ! i))
               \<and> m_senderId (messages st ! i) \<noteq> b
            then (messages st ! i)\<lparr>m_isReadBy := m_isReadBy (messages st ! i) @ [b]\<rparr>
            else messages st ! i)"
      by (rule nth_updateMany_read)
  next
    show "users (fst (markMessagesAsRead s c b True st)) = users st" by (rule u)
  next
    show "emits (snd (markMessagesAsRead s c b True st))
      = map (\<lambda>x. (To x, MessagesRead c b)) (connectionsFor (users st) b)" by (rule e)
  qed
qed

theorem read_receipt_witness:
  "messages (fst (markMessagesAsRead ''b1'' ''C'' ''B'' True chat_state))
     = [\<lparr>m_id = ''m1'', m_chatId = ''C'', m_senderId = ''A'', m_content = ''hello'',
         m_isReadBy = [''A'', ''B''], m_createdAt = 1\<rparr>,
        \<lparr>m_id = ''m2'', m_chatId = ''C'', m_senderId = ''B'', m_content = ''hi'',
         m_isReadBy = [''B''], m_createdAt = 2\<rparr>,
        \<lparr>m_id = ''m3'', m_chatId = ''D'', m_senderId = ''A'', m_content = ''other chat'',
         m_isReadBy = [''A''], m_createdAt = 3\<rparr>]
   \<and> length (messages (fst (markMessagesAsRead ''b1'' ''C'' ''B'' True chat_state))) = 3
   \<and> emits (snd (markMessagesAsRead ''b1'' ''C'' ''B'' True chat_state))
      = [(To ''b1'', MessagesRead ''C'' ''B''), (To ''b2'', MessagesRead ''C'' ''B'')]"
proof -
  have m: "messages (fst (markMessagesAsRead ''b1'' ''C'' ''B'' True chat_state))
     = updateMany_read ''C'' ''B'' example_messages"
    by (simp add: markMessagesAsRead_def chat_state_messages)
  have c: "connectionsFor (users chat_state) ''B'' = [''b1'', ''b2'']"
    by (simp add: chat_state_users connectionsFor_def obj_get_def)
  have l: "length (messages chat_state) = 3"
    by (simp add: chat_state_messages example_messages_def)
  from read_receipt [where s = "''b1''" and c = "''C''" and b = "''B''" and st = chat_state]
  have "length (messages (fst (markMessagesAsRead ''b1'' ''C'' ''B'' True chat_state))) = 3"
    and "emits (snd (markMessagesAsRead ''b1'' ''C'' ''B'' True chat_state))
      = [(To ''b1'', MessagesRead ''C'' ''B''), (To ''b2'', MessagesRead ''C'' ''B'')]"
    unfolding c l by simp_all
  moreover have "updateMany_read ''C'' ''B'' example_messages
     = [\<lparr>m_id = ''m1'', m_chatId = ''C'', m_senderId = ''A'', m_content = ''hello'',
         m_isReadBy = [''A'', ''B''], m_createdAt = 1\<rparr>,
        \<lparr>m_id = ''m2'', m_chatId = ''C'', m_senderId = ''B'', m_content = ''hi'',
         m_isReadBy = [''B''], m_createdAt = 2\<rparr>,
        \<lparr>m_id = ''m3'', m_chatId = ''D'', m_senderId = ''A'', m_content = ''other chat'',
         m_isReadBy = [''A''], m_createdAt = 3\<rparr>]"
    by (simp add: updateMany_read_def example_messages_def)
  ultimately show ?thesis unfolding m by simp
qed

section \<open>Disconnecting one of two connections\<close>

lemma disconnect_scan_filter:
  "disconnect_scan s us rest =
     (case filter (\<lambda>p. s \<in> set (socketIds (snd p))) rest of
        [] \<Rightarrow> (us, [])
      | p # ps \<Rightarrow>
          if set_delete s (socketIds (snd p)) = []
          then (obj_delete (fst p) us,
                [Log (NowCompletelyOffline (fst p)), Emit (OthersOf s) (UserLeft (fst p))])
          else (obj_put (fst p) ((snd p)\<lparr>socketIds := set_delete s (socketIds (snd p))\<rparr>) us, []))"
  by (induction rest) (auto simp: Let_def)

lemma owner_entry:
  assumes o: "owners us s = [k]" and g: "obj_get us k = Some e" and m: "s \<in> set (socketIds e)"
  shows "filter (\<lambda>p. s \<in> set (socketIds (snd p))) us = [(k, e)]"
proof -
  have "(k, e) \<in> set (filter (\<lambda>p. s \<in> set (socketIds (snd p))) us)"
    using obj_get_in_set [OF g] m by simp
  moreover obtain p where p: "filter (\<lambda>p. s \<in> set (socketIds (snd p))) us = [p]"
    using o unfolding owners_def by (cases "filter (\<lambda>p. s \<in> set (socketIds (snd p))) us") auto
  ultimately show ?thesis by simp
qed

lemma filter_obj_replace:
  "map_of us k = Some e \<Longrightarrow> filter P us = [(k, e)] \<Longrightarrow> P (k, v) \<Longrightarrow> P (k, e) \<Longrightarrow>
   filter P (obj_replace k v us) = [(k, v)]"
proof (induction us)
  case Nil
  then show ?case by simp
next
  case (Cons p us)
  obtain k' v' where p: "p = (k', v')" by (cases p)
  show ?case
  proof (cases "k' = k")
    case True
    then have "v' = e" using Cons.prems(1) p by simp
    then have "filter P us = []" using Cons.prems(2,4) p True by simp
    then show ?thesis using Cons.prems(3) p True by simp
  next
    case False
    then have np: "\<not> P p" using Cons.prems(2) p by (auto split: if_splits)
    have "map_of us k = Some e" using Cons.prems(1) p False by simp
    moreover have "filter P us = [(k, e)]" using Cons.prems(2) np by simp
    ultimately have "filter P (obj_replace k v us) = [(k, v)]"
      using Cons.IH Cons.prems(3,4) by blast
    then show ?thesis using np p False by simp
  qed
qed

lemma filter_obj_put:
  "obj_get us k = Some e \<Longrightarrow> filter P us = [(k, e)] \<Longrightarrow> P (k, v) \<Longrightarrow> P (k, e) \<Longrightarrow>
   filter P (obj_put k v us) = [(k, v)]"
  using obj_get_in_set [of us k e]
  by (auto simp: obj_put_def obj_get_def filter_obj_replace rev_image_eqI)

lemma effects_disconnect:
  "snd (disconnect s st) = Log (SocketDisconnected s) # snd (disconnect_scan s (users st) (users st))"
  by (simp add: disconnect_def split: prod.splits)

text \<open>
  C1, amended. Let the user \<open>u\<close> be online with exactly the two connections \<open>c1\<close> and
  \<open>c2\<close>, neither of which is held by the entry of another user. The disconnect of \<open>c1\<close>
  removes \<open>c1\<close> from the entry of \<open>u\<close>, leaves \<open>u\<close> online and emits nothing; the
  disconnect of \<open>c2\<close> that follows deletes the entry of \<open>u\<close> and emits the one broadcast
  \<^verbatim>\<open>userLeft\<close> for \<open>u\<close>.
\<close>

theorem multi_connection_disconnect:
  assumes two: "set (connectionsFor (users st) u) = {c1, c2}" and ne: "c1 \<noteq> c2"
    and o1: "owners (users st) c1 = [u]" and o2: "owners (users st) c2 = [u]"
  shows "set (connectionsFor (users (fst (disconnect c1 st))) u) = {c2}
     \<and> isUserOnline (users (fst (disconnect c1 st))) u
     \<and> emits (snd (disconnect c1 st)) = []
     \<and> obj_get (users (fst (disconnect c2 (fst (disconnect c1 st))))) u = None
     \<and> emits (snd (disconnect c2 (fst (disconnect c1 st)))) = [(OthersOf c2, UserLeft u)]"
proof -
  let ?us = "users st"
  obtain e where g: "obj_get ?us u = Some e" and se: "set (socketIds e) = {c1, c2}"
  proof (cases "obj_get ?us u")
    case None
    then show ?thesis using two by (simp add: connectionsFor_def)
  next
    case (Some e)
    then show ?thesis using two that [of e] by (simp add: connectionsFor_def)
  qed
  let ?e1 = "e\<lparr>socketIds := set_delete c1 (socketIds e)\<rparr>"
  have "set (set_delete c1 (socketIds e)) = {c1, c2} - {c1}"
    unfolding set_delete_def set_removeAll se ..
  then have s1': "set (set_delete c1 (socketIds e)) = {c2}"
    using ne by auto
  then have s1: "set (socketIds ?e1) = {c2}" by simp
  have n1: "set_delete c1 (socketIds e) \<noteq> []"
    using s1' by (cases "set_delete c1 (socketIds e)") simp_all
  have m1: "c1 \<in> set (socketIds e)" and m2: "c2 \<in> set (socketIds e)"
    unfolding se by simp_all
  have f1: "filter (\<lambda>p. c1 \<in> set (socketIds (snd p))) ?us = [(u, e)]"
    by (rule owner_entry [OF o1 g m1])
  have f2: "filter (\<lambda>p. c2 \<in> set (socketIds (snd p))) ?us = [(u, e)]"
    by (rule owner_entry [OF o2 g m2])
  have d1: "disconnect_scan c1 ?us ?us = (obj_put u ?e1 ?us, [])"
    using n1 by (simp add: disconnect_scan_filter f1)
  let ?st1 = "fst (disconnect c1 st)"
  have u1: "users ?st1 = obj_put u ?e1 ?us"
    by (simp add: users_disconnect d1)
  have g1: "obj_get (users ?st1) u = Some ?e1"
    by (simp add: u1 obj_get_put)
  have em1: "emits (snd (disconnect c1 st)) = []"
    by (simp add: disconnect_def d1)
  have cf: "connectionsFor (users ?st1) u = socketIds ?e1"
    by (simp only: connectionsFor_def g1 option.case)
  have k1: "set (connectionsFor (users ?st1) u) = {c2}"
    unfolding cf by (rule s1)
  have on: "isUserOnline (users ?st1) u"
    unfolding isUserOnline_def cf using n1 by simp
  have f2': "filter (\<lambda>p. c2 \<in> set (socketIds (snd p))) (users ?st1) = [(u, ?e1)]"
    unfolding u1 by (rule filter_obj_put [OF g f2]) (simp_all add: s1' m2)
  have "set (set_delete c2 (set_delete c1 (socketIds e))) = {c2} - {c2}"
    unfolding set_delete_def [of c2] set_removeAll s1' ..
  then have n2: "set_delete c2 (socketIds ?e1) = []" by simp
  have d2: "disconnect_scan c2 (users ?st1) (users ?st1)
      = (obj_delete u (users ?st1), [Log (NowCompletelyOffline u), Emit (OthersOf c2) (UserLeft u)])"
    using n2 by (simp add: disconnect_scan_filter f2')
  have "users (fst (disconnect c2 ?st1)) = fst (disconnect_scan c2 (users ?st1) (users ?st1))"
    by (rule users_disconnect)
  then have g2: "obj_get (users (fst (disconnect c2 ?st1))) u = None"
    unfolding d2 by (simp add: obj_get_delete)
  have "snd (disconnect c2 ?st1)
      = Log (SocketDisconnected c2) # snd (disconnect_scan c2 (users ?st1) (users ?st1))"
    by (rule effects_disconnect)
  then have em2: "emits (snd (disconnect c2 ?st1)) = [(OthersOf c2, UserLeft u)]"
    unfolding d2 by simp
  show ?thesis using k1 on em1 g2 em2 by (intro conjI)
qed

lemma two_tabs_users:
  "users two_tabs_state =
     [(''A'', \<lparr>socketIds = [''c1'', ''c2''], firstName = JStr ''Alice'', lastName = JStr ''Liddell'',
               xpos = JNum 10, ypos = JNum 20, tableId = JNull\<rparr>),
      (''B'', \<lparr>socketIds = [''b1''], firstName = JStr ''Bob'', lastName = JStr [],
               xpos = JNum 100, ypos = JNum 100, tableId = JNull\<rparr>)]"
  by (simp add: two_tabs_state_def store_simps handler_simps alice_def bob_def)

lemma shared_users:
  "users shared_state =
     [(''B'', \<lparr>socketIds = [''c1''], firstName = JStr ''Bob'', lastName = JStr [],
               xpos = JNum 100, ypos = JNum 100, tableId = JNull\<rparr>),
      (''A'', \<lparr>socketIds = [''c1'', ''c2''], firstName = JStr ''Alice'', lastName = JStr ''Liddell'',
               xpos = JNum 10, ypos = JNum 20, tableId = JNull\<rparr>)]"
  by (simp add: shared_state_def store_simps handler_simps alice_def bob_def)

text \<open>
  C1, as claimed, fails when a connection is held by two entries. In \<open>shared_state\<close> the
  connection \<open>c1\<close> has registered as Bob and then as Alice, and Alice is online with
  exactly \<open>c1\<close> and \<open>c2\<close>. The disconnect of \<open>c1\<close> stops at Bob's entry, the first one
  that holds \<open>c1\<close>: it emits \<^verbatim>\<open>userLeft\<close> for Bob and leaves \<open>c1\<close> in Alice's entry.
\<close>

theorem multi_connection_counterexample:
  "connectionsFor (users shared_state) ''A'' = [''c1'', ''c2'']
   \<and> connectionsFor (users (fst (disconnect ''c1'' shared_state))) ''A'' = [''c1'', ''c2'']
   \<and> emits (snd (disconnect ''c1'' shared_state)) = [(OthersOf ''c1'', UserLeft ''B'')]"
  by (simp add: shared_users disconnect_def store_simps)

theorem multi_connection_disconnect_witness:
  "set (connectionsFor (users two_tabs_state) ''A'') = {''c1'', ''c2''}
   \<and> owners (users two_tabs_state) ''c1'' = [''A'']
   \<and> owners (users two_tabs_state) ''c2'' = [''A'']
   \<and> connectionsFor (users (fst (disconnect ''c1'' two_tabs_state))) ''A'' = [''c2'']
   \<and> isUserOnline (users (fst (disconnect ''c1'' two_tabs_state))) ''A''
   \<and> emits (snd (disconnect ''c1'' two_tabs_state)) = []
   \<and> emits (snd (disconnect ''c2'' (fst (disconnect ''c1'' two_tabs_state))))
      = [(OthersOf ''c2'', UserLeft ''A'')]"
proof -
  have h: "set (connectionsFor (users two_tabs_state) ''A'') = {''c1'', ''c2''}"
    "''c1'' \<noteq> ''c2''"
    "owners (users two_tabs_state) ''c1'' = [''A'']"
    "owners (users two_tabs_state) ''c2'' = [''A'']"
    by (simp_all add: two_tabs_users connectionsFor_def obj_get_def owners_def)
  have c: "connectionsFor (users (fst (disconnect ''c1'' two_tabs_state))) ''A'' = [''c2'']"
    by (simp add: two_tabs_users disconnect_def store_simps)
  show ?thesis
    using multi_connection_disconnect [OF h] h(1,3,4) c by (intro conjI) simp_all
qed

section \<open>Connections and the entries that hold them\<close>

lemma scan_result:
  "fst (disconnect_scan s us rest) = us
   \<or> (\<exists>k. fst (disconnect_scan s us rest) = obj_delete k us)
   \<or> (\<exists>k d. (k, d) \<in> set rest \<and> s \<in> set (socketIds d)
          \<and> fst (disconnect_scan s us rest)
              = obj_put k (d\<lparr>socketIds := set_delete s (socketIds d)\<rparr>) us)"
proof (induction rest)
  case Nil
  show ?case by simp
next
  case (Cons p rest)
  obtain k d where p: "p = (k, d)" by (cases p)
  show ?case
  proof (cases "s \<in> set (socketIds d)")
    case True
    show ?thesis
    proof (cases "set_delete s (socketIds d) = []")
      case True
      then have "fst (disconnect_scan s us (p # rest)) = obj_delete k us"
        using \<open>s \<in> set (socketIds d)\<close> by (simp add: p)
      then show ?thesis by blast
    next
      case False
      then have "fst (disconnect_scan s us (p # rest))
          = obj_put k (d\<lparr>socketIds := set_delete s (socketIds d)\<rparr>) us"
        using \<open>s \<in> set (socketIds d)\<close> by (simp add: p Let_def)
      moreover have "(k, d) \<in> set (p # rest)" by (simp add: p)
      ultimately show ?thesis using \<open>s \<in> set (socketIds d)\<close> by blast
    qed
  next
    case False
    then have "fst (disconnect_scan s us (p # rest)) = fst (disconnect_scan s us rest)"
      by (simp add: p)
    then show ?thesis using Cons.IH by (simp only: list.set) blast
  qed
qed

lemma distinct_keys_handle:
  assumes "distinct (map fst (users st))"
  shows "distinct (map fst (users (fst (handle ev st))))"
proof (cases ev)
  case (On_registerUser s p ok)
  then show ?thesis using assms
    by (simp add: users_registerUser distinct_obj_put split: sum.splits)
next
  case (On_userMoved s uid x y ok)
  then show ?thesis using assms
    by (simp add: users_userMoved distinct_obj_put split: option.splits)
next
  case (On_joinTable s uid t ok)
  then show ?thesis using assms
    by (simp add: users_joinTable distinct_obj_put split: option.splits)
next
  case (On_disconnect s)
  then show ?thesis
    using assms scan_result [of s "users st" "users st"]
      distinct_obj_put [OF assms] distinct_obj_delete [OF assms]
    by (auto simp: users_disconnect)
qed (use assms in \<open>simp_all add: users_unchanged\<close>)

lemma distinct_keys_run:
  "distinct (map fst (users st)) \<Longrightarrow> distinct (map fst (users (fst (run evs st))))"
proof (induction evs arbitrary: st)
  case Nil
  then show ?case by simp
next
  case (Cons ev evs)
  show ?case unfolding run_Cons
    by (rule Cons.IH) (rule distinct_keys_handle [OF Cons.prems])
qed

lemma regs_Cons: "regs (ev # evs) = regs [ev] @ regs evs"
  by (cases ev) simp_all

lemma origin_handle:
  assumes in': "(k, e) \<in> set (users (fst (handle ev st)))" and s: "s \<in> set (socketIds e)"
  shows "(s, k) \<in> set (regs [ev])
     \<or> (\<exists>e0. (k, e0) \<in> set (users st) \<and> s \<in> set (socketIds e0))"
proof (cases ev)
  case (On_registerUser s' p ok)
  let ?k = "to_key (r_userId p)"
  show ?thesis
  proof (cases "register_entry st p")
    case (Inl err)
    then have "(k, e) \<in> set (users st)"
      using in' On_registerUser by (simp add: users_registerUser)
    then show ?thesis using s by blast
  next
    case (Inr e0)
    note e0 = register_entry_Inr [OF Inr]
    let ?e = "e0\<lparr>socketIds := set_add s' (socketIds e0)\<rparr>"
    have "(k, e) \<in> insert (?k, ?e) (set (users st))"
      using in' set_obj_put [of ?k ?e "users st"] On_registerUser Inr
      by (auto simp: users_registerUser)
    then consider "(k, e) \<in> set (users st)" | "k = ?k" "e = ?e" by auto
    then show ?thesis
    proof cases
      case 1
      then show ?thesis using s by blast
    next
      case 2
      show ?thesis
      proof (cases "obj_get (users st) ?k")
        case None
        then have "s = s'" using 2 s e0 by (simp add: new_entry_def set_add_def)
        then show ?thesis using 2 On_registerUser by simp
      next
        case (Some e1)
        then have "s = s' \<or> s \<in> set (socketIds e1)"
          using 2 s e0 by (auto simp: set_add_def split: if_splits)
        then show ?thesis
        proof
          assume "s = s'"
          then show ?thesis using 2 On_registerUser by simp
        next
          assume "s \<in> set (socketIds e1)"
          then show ?thesis using obj_get_in_set [OF Some] 2 by blast
        qed
      qed
    qed
  qed
next
  case (On_userMoved s' uid x y ok)
  show ?thesis
  proof (cases "obj_get (users st) (to_key uid)")
    case None
    then show ?thesis using in' s On_userMoved by (auto simp: users_userMoved)
  next
    case (Some e0)
    have "(k, e) \<in> insert (to_key uid, e0\<lparr>xpos := x, ypos := y\<rparr>) (set (users st))"
      using in' set_obj_put [of "to_key uid" "e0\<lparr>xpos := x, ypos := y\<rparr>" "users st"]
        On_userMoved Some
      by (auto simp: users_userMoved)
    then consider "(k, e) \<in> set (users st)"
      | "k = to_key uid" "e = e0\<lparr>xpos := x, ypos := y\<rparr>" by auto
    then show ?thesis
    proof cases
      case 1
      then show ?thesis using s by blast
    next
      case 2
      then have "s \<in> set (socketIds e0)" using s by simp
      then show ?thesis using obj_get_in_set [OF Some] 2 by blast
    qed
  qed
next
  case (On_joinTable s' uid t ok)
  show ?thesis
  proof (cases "obj_get (users st) (to_key uid)")
    case None
    then show ?thesis using in' s On_joinTable by (auto simp: users_joinTable)
  next
    case (Some e0)
    have "(k, e) \<in> insert (to_key uid, e0\<lparr>tableId := t\<rparr>) (set (users st))"
      using in' set_obj_put [of "to_key uid" "e0\<lparr>tableId := t\<rparr>" "users st"]
        On_joinTable Some
      by (auto simp: users_joinTable)
    then consider "(k, e) \<in> set (users st)"
      | "k = to_key uid" "e = e0\<lparr>tableId := t\<rparr>" by auto
    then show ?thesis
    proof cases
      case 1
      then show ?thesis using s by blast
    next
      case 2
      then have "s \<in> set (socketIds e0)" using s by simp
      then show ?thesis using obj_get_in_set [OF Some] 2 by blast
    qed
  qed
next
  case (On_disconnect s')
  have in'': "(k, e) \<in> set (fst (disconnect_scan s' (users st) (users st)))"
    using in' On_disconnect by (simp add: users_disconnect)
  from scan_result [of s' "users st" "users st"]
  consider "fst (disconnect_scan s' (users st) (users st)) = users st"
    | k' where "fst (disconnect_scan s' (users st) (users st)) = obj_delete k' (users st)"
    | k' d where "(k', d) \<in> set (users st)"
        "fst (disconnect_scan s' (users st) (users st))
              = obj_put k' (d\<lparr>socketIds := set_delete s' (socketIds d)\<rparr>) (users st)"
    by blast
  then show ?thesis
  proof cases
    case 1
    then show ?thesis using in'' s by auto
  next
    case 2
    then have "(k, e) \<in> set (users st)"
      using in'' set_obj_delete [of k' "users st"] by auto
    then show ?thesis using s by blast
  next
    case 3
    have "(k, e) \<in> insert (k', d\<lparr>socketIds := set_delete s' (socketIds d)\<rparr>) (set (users st))"
      using in'' 3(2) set_obj_put [of k' "d\<lparr>socketIds := set_delete s' (socketIds d)\<rparr>" "users st"]
      by auto
    then consider "(k, e) \<in> set (users st)"
      | "k = k'" "e = d\<lparr>socketIds := set_delete s' (socketIds d)\<rparr>" by auto
    then show ?thesis
    proof cases
      case 1
      then show ?thesis using s by blast
    next
      case 2
      then have "s \<in> set (socketIds d)" using s by (simp add: set_delete_def)
      then show ?thesis using 3(1) 2 by blast
    qed
  qed
qed (use in' s in \<open>auto simp: users_unchanged\<close>)

lemma origin_run:
  "(k, e) \<in> set (users (fst (run evs st))) \<Longrightarrow> s \<in> set (socketIds e) \<Longrightarrow>
   (s, k) \<in> set (regs evs) \<or> (\<exists>e0. (k, e0) \<in> set (users st) \<and> s \<in> set (socketIds e0))"
proof (induction evs arbitrary: st e)
  case Nil
  then show ?case by auto
next
  case (Cons ev evs)
  have "(k, e) \<in> set (users (fst (run evs (fst (handle ev st)))))"
    using Cons.prems(1) by (simp only: run_Cons)
  from Cons.IH [OF this Cons.prems(2)]
  consider "(s, k) \<in> set (regs evs)"
    | e1 where "(k, e1) \<in> set (users (fst (handle ev st)))" "s \<in> set (socketIds e1)"
    by blast
  then show ?case
  proof cases
    case 1
    then show ?thesis by (subst regs_Cons) simp
  next
    case 2
    from origin_handle [OF 2] show ?thesis by (subst regs_Cons) auto
  qed
qed

lemma length_le_1: "distinct xs \<Longrightarrow> (\<And>x y. x \<in> set xs \<Longrightarrow> y \<in> set xs \<Longrightarrow> x = y) \<Longrightarrow> length xs \<le> 1"
proof (cases xs)
  case Nil
  then show ?thesis by simp
next
  case (Cons a ys)
  assume d: "distinct xs" and eq: "\<And>x y. x \<in> set xs \<Longrightarrow> y \<in> set xs \<Longrightarrow> x = y"
  show ?thesis
  proof (cases ys)
    case Nil
    then show ?thesis using Cons by simp
  next
    case (Cons b zs)
    then have "a = b" using eq [of a b] \<open>xs = a # ys\<close> by simp
    then show ?thesis using d Cons \<open>xs = a # ys\<close> by simp
  qed
qed

text \<open>
  C5, amended. After any sequence of events from the empty store in which no connection
  sends \<^verbatim>\<open>registerUser\<close> under two different user ids, every connection id is held by at
  most one entry of the user store.
\<close>

theorem one_entry_per_connection:
  assumes "one_user_per_connection evs"
  shows "length (owners (final_users evs) s) \<le> 1"
proof (rule length_le_1)
  have "distinct (map fst (final_users evs))"
    unfolding final_users_def by (rule distinct_keys_run) (simp add: init_state_def)
  then show "distinct (owners (final_users evs) s)"
    unfolding owners_def by (rule distinct_map_filter)
next
  fix k k' assume "k \<in> set (owners (final_users evs) s)" "k' \<in> set (owners (final_users evs) s)"
  then obtain e e' where "(k, e) \<in> set (final_users evs)" "s \<in> set (socketIds e)"
    "(k', e') \<in> set (final_users evs)" "s \<in> set (socketIds e')"
    unfolding owners_def by auto
  then have "(s, k) \<in> set (regs evs)" "(s, k') \<in> set (regs evs)"
    using origin_run [of k e evs init_state s] origin_run [of k' e' evs init_state s]
    by (auto simp: final_users_def init_state_def)
  then show "k = k'"
    using assms unfolding one_user_per_connection_def list_all_iff by fastforce
qed

text \<open>
  C5, as claimed, fails: no handler takes a connection out of one entry when it registers
  under another user id. After the connection \<open>c1\<close> has registered as Bob and as Alice,
  both entries hold it.
\<close>

theorem one_entry_per_connection_counterexample:
  "owners (final_users [On_registerUser ''c1'' bob True, On_registerUser ''c1'' alice True]) ''c1''
     = [''B'', ''A'']"
  by (simp add: final_users_def owners_def store_simps handler_simps alice_def bob_def)

theorem one_entry_per_connection_witness:
  "one_user_per_connection
     [On_registerUser ''c1'' alice True, On_registerUser ''b1'' bob True,
      On_registerUser ''c2'' alice True, On_userMoved ''c1'' (JStr ''A'') (JNum 1) (JNum 2) True,
      On_disconnect ''b1'']
   \<and> length (owners (final_users
     [On_registerUser ''c1'' alice True, On_registerUser ''b1'' bob True,
      On_registerUser ''c2'' alice True, On_userMoved ''c1'' (JStr ''A'') (JNum 1) (JNum 2) True,
      On_disconnect ''b1'']) ''c1'') \<le> 1"
proof -
  have h: "one_user_per_connection
     [On_registerUser ''c1'' alice True, On_registerUser ''b1'' bob True,
      On_registerUser ''c2'' alice True, On_userMoved ''c1'' (JStr ''A'') (JNum 1) (JNum 2) True,
      On_disconnect ''b1'']"
    by (simp add: one_user_per_connection_def alice_def bob_def)
  show ?thesis using one_entry_per_connection [OF h, of "''c1''"] h by simp
qed

section \<open>The chat services never reach a connection\<close>

lemma emit_by_socketId_empty: "emit_by_socketId us pid pl = []"
  by (simp add: emit_by_socketId_def entry_prop_def split: option.splits)

lemma concat_emit_by_socketId: "concat (map (\<lambda>pid. emit_by_socketId us pid (f pid)) ps) = []"
  by (simp add: emit_by_socketId_empty)

text \<open>
  C10. An entry of the user store has the property \<^verbatim>\<open>socketIds\<close> and no property
  \<^verbatim>\<open>socketId\<close>. So whenever \<^verbatim>\<open>createChatService\<close>, \<^verbatim>\<open>createGroupChatService\<close> or
  \<^verbatim>\<open>sendMessageService\<close> returns, its broadcast guarded by \<^verbatim>\<open>user?.socketId\<close> has pushed
  \<^verbatim>\<open>chatCreated\<close> or \<^verbatim>\<open>messageCreated\<close> to no connection, whatever the user store holds.
\<close>

theorem socketId_pushes_reach_nobody:
  "entry_prop e ''socketId'' = None
   \<and> entry_prop e ''socketIds'' = Some (PSet (socketIds e))
   \<and> (\<forall>c cs es. createChatService us docs chats new_id now fromId toIds groupName = Inr (c, cs, es)
          \<longrightarrow> emits es = [])
   \<and> (\<forall>c cs es. createGroupChatService us chats new_id now userId toIds groupName = Inr (c, cs, es)
          \<longrightarrow> emits es = [])
   \<and> (\<forall>m cs ms es. sendMessageService us docs chats msgs new_id now chatId senderId content
            = Inr (m, cs, ms, es) \<longrightarrow> emits es = [])"
proof (intro conjI allI impI)
  show "entry_prop e ''socketId'' = None" by (simp add: entry_prop_def)
  show "entry_prop e ''socketIds'' = Some (PSet (socketIds e))" by (simp add: entry_prop_def)
next
  fix c cs es
  assume "createChatService us docs chats new_id now fromId toIds groupName = Inr (c, cs, es)"
  then have "es = []"
    unfolding createChatService_def Let_def concat_emit_by_socketId
    by (simp split: option.splits if_splits)
  then show "emits es = []" by simp
next
  fix c cs es
  assume "createGroupChatService us chats new_id now userId toIds groupName = Inr (c, cs, es)"
  then have "es = []"
    unfolding createGroupChatService_def Let_def concat_emit_by_socketId
    by (simp split: option.splits if_splits)
  then show "emits es = []" by simp
next
  fix m cs ms es
  assume "sendMessageService us docs chats msgs new_id now chatId senderId content = Inr (m, cs, ms, es)"
  then have "es = []"
    unfolding sendMessageService_def Let_def concat_emit_by_socketId
    by (simp split: option.splits if_splits)
  then show "emits es = []" by simp
qed

theorem socketId_pushes_reach_nobody_witness:
  "isUserOnline (users chat_state) ''A'' \<and> isUserOnline (users chat_state) ''B''
   \<and> createChatService (users chat_state) example_docs [] ''chat1'' 5 ''B'' (Some [''A'']) None
       = Inr (example_chat, [example_chat], [])
   \<and> createGroupChatService (users chat_state) [] ''g1'' 6 ''A'' (Some [''B'', ''C'']) (Some '' Team '')
       = Inr (\<lparr>c_id = ''g1'', c_groupName = Some ''Team'', c_isGroupChat = True,
               c_participants = [''B'', ''C'', ''A''], c_participantsKey = None, c_updatedAt = 6\<rparr>,
              [\<lparr>c_id = ''g1'', c_groupName = Some ''Team'', c_isGroupChat = True,
               c_participants = [''B'', ''C'', ''A''], c_participantsKey = None, c_updatedAt = 6\<rparr>],
              [])
   \<and> sendMessageService (users chat_state) example_docs [example_chat] [] ''m9'' 7 ''chat1'' ''A'' '' hello ''
       = Inr (\<lparr>m_id = ''m9'', m_chatId = ''chat1'', m_senderId = ''A'', m_content = ''hello'',
               m_isReadBy = [''A''], m_createdAt = 7\<rparr>,
              [example_chat\<lparr>c_updatedAt := 7\<rparr>],
              [\<lparr>m_id = ''m9'', m_chatId = ''chat1'', m_senderId = ''A'', m_content = ''hello'',
               m_isReadBy = [''A''], m_createdAt = 7\<rparr>],
              [])"
proof -
  have on: "isUserOnline (users chat_state) ''A''" "isUserOnline (users chat_state) ''B''"
    by (simp_all add: isUserOnline_def connectionsFor_def obj_get_def chat_state_users)
  have 1: "createChatService (users chat_state) example_docs [] ''chat1'' 5 ''B'' (Some [''A'']) None
       = Inr (example_chat, [example_chat], [])"
    by (simp add: createChatService_def Let_def emit_by_socketId_def entry_prop_def obj_get_def chat_state_users example_docs_def
        example_chat_def uniq_def set_add_def)
  have 2: "createGroupChatService (users chat_state) [] ''g1'' 6 ''A'' (Some [''B'', ''C'']) (Some '' Team '')
       = Inr (\<lparr>c_id = ''g1'', c_groupName = Some ''Team'', c_isGroupChat = True,
               c_participants = [''B'', ''C'', ''A''], c_participantsKey = None, c_updatedAt = 6\<rparr>,
              [\<lparr>c_id = ''g1'', c_groupName = Some ''Team'', c_isGroupChat = True,
               c_participants = [''B'', ''C'', ''A''], c_participantsKey = None, c_updatedAt = 6\<rparr>],
              [])"
    by (simp add: createGroupChatService_def Let_def emit_by_socketId_def entry_prop_def obj_get_def chat_state_users
        uniq_def set_add_def trim_def is_space_def)
  have 3: "sendMessageService (users chat_state) example_docs [example_chat] [] ''m9'' 7 ''chat1'' ''A'' '' hello ''
       = Inr (\<lparr>m_id = ''m9'', m_chatId = ''chat1'', m_senderId = ''A'', m_content = ''hello'',
               m_isReadBy = [''A''], m_createdAt = 7\<rparr>,
              [example_chat\<lparr>c_updatedAt := 7\<rparr>],
              [\<lparr>m_id = ''m9'', m_chatId = ''chat1'', m_senderId = ''A'', m_content = ''hello'',
               m_isReadBy = [''A''], m_createdAt = 7\<rparr>],
              [])"
    by (simp add: sendMessageService_def Let_def emit_by_socketId_def entry_prop_def obj_get_def chat_state_users example_docs_def
        example_chat_def trim_def is_space_def)
  show ?thesis
    using socketId_pushes_reach_nobody [where us = "users chat_state" and docs = example_docs
        and chats = "[]" and new_id = "''chat1''" and now = 5 and fromId = "''B''"
        and toIds = "Some [''A'']" and groupName = None] on 1 2 3
    by (intro conjI)
qed

section \<open>The roster sent on registration\<close>





























end
